theory Spec2Isabelle
  imports Main "HOL-Library.Char_ord" "HOL-Library.List_Lexorder"
begin

section \<open>docklift: the configuration schema (src/docklift/config.py)\<close>

text \<open>
  The module declares four pydantic (v2) models, one field validator and two file
  operations.  Everything the module does beyond its own lines happens in three
  libraries: \<^verbatim>\<open>pathlib\<close> (paths, existence, mkdir), PyYAML (\<^verbatim>\<open>safe_load\<close>,
  \<^verbatim>\<open>dump\<close>) and pydantic (construction of a model from keyword arguments,
  \<^verbatim>\<open>model_dump(mode="json")\<close>).  The parts of the libraries that the module reaches are
  modelled here as well, on Linux and as CPython 3.10 to 3.12 have them (the module uses
  \<^verbatim>\<open>str | None\<close>; in these versions \<^verbatim>\<open>Path.exists\<close> passes on the errors of
  \<^verbatim>\<open>os.stat\<close> that do not mean that the file is missing).
\<close>

subsection \<open>Python values\<close>

text \<open>
  The values that \<^verbatim>\<open>yaml.safe_load\<close> hands to the models.  A \<^verbatim>\<open>dict\<close> is an
  association list in insertion order, and its keys are distinct (\<open>wf_pyval\<close> below).
  \<open>PDate y m d\<close> is \<^verbatim>\<open>datetime.date(y, m, d)\<close>: PyYAML builds one from a plain scalar
  such as \<^verbatim>\<open>2020-01-01\<close>.  Outside the model: floats, date-times, byte strings, sets,
  and mappings whose keys are not strings.
\<close>

datatype pyval =
    PNone
  | PBool bool
  | PInt int
  | PStr string
  | PDate nat nat nat
  | PList "pyval list"
  | PDict "(string \<times> pyval) list"

type_synonym pydict = "(string \<times> pyval) list"

text \<open>Everything raised by the module or through it.\<close>

datatype loc_item = Key string | Idx nat

text \<open>One line of a pydantic \<^verbatim>\<open>ValidationError\<close>: location, error type, message.\<close>

datatype line_error = LineError (loc: "loc_item list") (err_type: string) (msg: string)

text \<open>
  \<open>OSError n s\<close> is an \<^verbatim>\<open>OSError\<close> of no more special class, with its \<^verbatim>\<open>errno\<close> and
  file name (36 is \<^verbatim>\<open>ENAMETOOLONG\<close>); the other errors of the operating system carry the
  file name.
\<close>

datatype error =
    FileNotFoundError string
  | FileExistsError string
  | NotADirectoryError string
  | IsADirectoryError string
  | OSError nat string
  | YAMLError
  | UnicodeDecodeError
  | TypeError string
  | ValueError string
  | RuntimeError string
  | ValidationError "line_error list"

subsection \<open>pathlib: pure paths on POSIX\<close>

text \<open>
  \<^verbatim>\<open>str.split(sep)\<close>: the pieces between the separators; \<^verbatim>\<open>"".split("/") == [""]\<close>.
\<close>

fun split_sep :: "char \<Rightarrow> string \<Rightarrow> string list" where
  "split_sep c [] = [[]]"
| "split_sep c (x # xs) =
     (if x = c then [] # split_sep c xs
      else (case split_sep c xs of
              [] \<Rightarrow> [[x]]
            | w # ws \<Rightarrow> (x # w) # ws))"

text \<open>\<^verbatim>\<open>sep.join(parts)\<close>.\<close>

fun join_sep :: "char \<Rightarrow> string list \<Rightarrow> string" where
  "join_sep c [] = []"
| "join_sep c [p] = p"
| "join_sep c (p # q # ps) = p @ c # join_sep c (q # ps)"

text \<open>
  A parsed path: the root (\<^verbatim>\<open>""\<close>, \<^verbatim>\<open>"/"\<close> or \<^verbatim>\<open>"//"\<close>; there is no drive on POSIX) and
  the components after it.
\<close>

record path =
  root :: string
  parts :: "string list"

text \<open>
  \<^verbatim>\<open>_PosixFlavour.splitroot\<close>: exactly two leading slashes are kept as the root
  \<^verbatim>\<open>"//"\<close>, one or more than two are the root \<^verbatim>\<open>"/"\<close>.
\<close>

definition splitroot :: "string \<Rightarrow> string \<times> string" where
  "splitroot part =
     (if part \<noteq> [] \<and> hd part = CHR ''/'' then
        (let stripped_part = dropWhile (\<lambda>c. c = CHR ''/'') part in
         if length part - length stripped_part = 2 then (''//'', stripped_part)
         else (''/'', stripped_part))
      else ('''', part))"

text \<open>
  \<^verbatim>\<open>Path(v)\<close> for one string argument (\<^verbatim>\<open>parse_parts\<close>): the root is split off, and the
  empty components and the \<^verbatim>\<open>"."\<close> components are dropped.  \<^verbatim>\<open>".."\<close> stays.
\<close>

definition Path :: "string \<Rightarrow> path" where
  "Path v =
     (let (r, rel) = splitroot v in
      \<lparr>root = r, parts = filter (\<lambda>x. x \<noteq> [] \<and> x \<noteq> ''.'') (split_sep CHR ''/'' rel)\<rparr>)"

text \<open>\<^verbatim>\<open>str(path)\<close>: \<^verbatim>\<open>_format_parsed_parts(...) or '.'\<close>.\<close>

definition str_path :: "path \<Rightarrow> string" where
  "str_path p =
     (let s = root p @ join_sep CHR ''/'' (parts p) in if s = [] then ''.'' else s)"

text \<open>\<^verbatim>\<open>path.parent\<close>: a path without components is its own parent.\<close>

definition parent :: "path \<Rightarrow> path" where
  "parent p = (if parts p = [] then p else p\<lparr>parts := butlast (parts p)\<rparr>)"

definition is_absolute :: "path \<Rightarrow> bool" where
  "is_absolute p = (root p \<noteq> [])"

subsection \<open>The local filesystem and the user database\<close>

text \<open>
  What a file holds, as far as PyYAML is concerned: bytes that are not text in the
  encoding of the locale, text that the parser rejects, or the node graph of the
  (single) document the text denotes.  The scanner and the parser are not modelled.  A
  collection node carries the style it is written in (\<open>True\<close> for flow style); a
  timestamp node carries the year, the month and the day that its scalar spells (the
  resolver takes for a timestamp every plain scalar of the form \<^verbatim>\<open>dddd-dd-dd\<close>,
  whether or not there is such a day).
\<close>

datatype node =
    NNull
  | NBool bool
  | NInt int
  | NStr string
  | NTimestamp nat nat nat
  | NSeq bool "node list"
  | NMap bool "(string \<times> node) list"

datatype file_content = Undecodable | Malformed | Doc node

text \<open>
  A place in the directory tree is named by the components that lead to it from the
  root: the empty list is the root.  The filesystem holds the regular files and the
  directories by their place, the current directory of the process, and the home
  directories: \<open>homes ''''\<close> is the current user's (\<^verbatim>\<open>$HOME\<close>, or the password
  database), \<open>homes name\<close> is the one of user \<open>name\<close>.  Outside the model: symbolic
  and hard links, special files, permissions, concurrent processes.
\<close>

type_synonym place = "string list"

record filesystem =
  files :: "place \<rightharpoonup> file_content"
  dirs :: "place set"
  cwd :: place
  homes :: "string \<rightharpoonup> string"

text \<open>
  The root, the current directory and the directories above it are directories; they are
  not listed in \<open>dirs\<close>.
\<close>

definition dir_at :: "filesystem \<Rightarrow> place \<Rightarrow> bool" where
  "dir_at fs l = (l \<in> dirs fs \<or> take (length l) (cwd fs) = l)"

definition file_at :: "filesystem \<Rightarrow> place \<Rightarrow> bool" where
  "file_at fs l = (\<not> dir_at fs l \<and> files fs l \<noteq> None)"

text \<open>
  Path resolution by the kernel: every component is looked up in the directory reached so
  far, and \<^verbatim>\<open>..\<close> leads to the directory above (the root is above itself).  A
  component looked up in a regular file is \<^verbatim>\<open>ENOTDIR\<close>, one looked up in nothing is
  \<^verbatim>\<open>ENOENT\<close>, and a component longer than \<^verbatim>\<open>NAME_MAX\<close> (255) is
  \<^verbatim>\<open>ENAMETOOLONG\<close>.  The place reached by the last component need not hold anything.
\<close>

definition step :: "place \<Rightarrow> string \<Rightarrow> place" where
  "step l x = (if x = ''..'' then butlast l else l @ [x])"

datatype lookup = Found place | ENOENT | ENOTDIR | ENAMETOOLONG

fun walk :: "filesystem \<Rightarrow> place \<Rightarrow> string list \<Rightarrow> lookup" where
  "walk fs l [] = Found l"
| "walk fs l (x # xs) =
     (if dir_at fs l then (if 255 < length x then ENAMETOOLONG else walk fs (step l x) xs)
      else if file_at fs l then ENOTDIR
      else ENOENT)"

text \<open>
  A path with a root starts at the root, any other at the current directory.  A path
  string longer than \<^verbatim>\<open>PATH_MAX\<close> (4096, the final null byte included) is
  \<^verbatim>\<open>ENAMETOOLONG\<close> before any lookup.
\<close>

definition resolve :: "filesystem \<Rightarrow> path \<Rightarrow> lookup" where
  "resolve fs p =
     (if 4095 < length (str_path p) then ENAMETOOLONG
      else walk fs (if root p = [] then cwd fs else []) (parts p))"

text \<open>\<^verbatim>\<open>os.stat(path)\<close>: what is at the path.\<close>

datatype kind = Directory | Regular

definition os_stat :: "filesystem \<Rightarrow> path \<Rightarrow> error + kind" where
  "os_stat fs p =
     (case resolve fs p of
        ENAMETOOLONG \<Rightarrow> Inl (OSError 36 (str_path p))
      | ENOTDIR \<Rightarrow> Inl (NotADirectoryError (str_path p))
      | ENOENT \<Rightarrow> Inl (FileNotFoundError (str_path p))
      | Found l \<Rightarrow>
          if dir_at fs l then Inr Directory
          else if files fs l \<noteq> None then Inr Regular
          else Inl (FileNotFoundError (str_path p)))"

text \<open>
  \<^verbatim>\<open>pathlib._ignore_error\<close>: the errors that mean that there is nothing at the path
  (\<^verbatim>\<open>ENOENT\<close>, \<^verbatim>\<open>ENOTDIR\<close>; \<^verbatim>\<open>EBADF\<close> and \<^verbatim>\<open>ELOOP\<close> do not occur here).
\<close>

definition ignore_error :: "error \<Rightarrow> bool" where
  "ignore_error e =
     (case e of FileNotFoundError m \<Rightarrow> True | NotADirectoryError m \<Rightarrow> True | _ \<Rightarrow> False)"

text \<open>
  \<^verbatim>\<open>path.exists()\<close>:
  \<^verbatim>\<open>
  try:
      self.stat()
  except OSError as e:
      if not _ignore_error(e):
          raise
      return False
  return True
  \<close>
\<close>

definition exists_path :: "filesystem \<Rightarrow> path \<Rightarrow> error + bool" where
  "exists_path fs p =
     (case os_stat fs p of
        Inr k \<Rightarrow> Inr True
      | Inl e \<Rightarrow> if \<not> ignore_error e then Inl e else Inr False)"

text \<open>\<^verbatim>\<open>path.is_dir()\<close>, with the same handler.\<close>

definition is_dir :: "filesystem \<Rightarrow> path \<Rightarrow> error + bool" where
  "is_dir fs p =
     (case os_stat fs p of
        Inr k \<Rightarrow> Inr (k = Directory)
      | Inl e \<Rightarrow> if \<not> ignore_error e then Inl e else Inr False)"

subsection \<open>Home-directory expansion\<close>

text \<open>\<^verbatim>\<open>userhome.rstrip('/')\<close>.\<close>

definition rstrip_sep :: "string \<Rightarrow> string" where
  "rstrip_sep s = rev (dropWhile (\<lambda>c. c = CHR ''/'') (rev s))"

text \<open>
  \<^verbatim>\<open>os.path.expanduser\<close> on one component that starts with \<^verbatim>\<open>~\<close>: the home directory
  without trailing slashes (\<^verbatim>\<open>"/"\<close> when nothing is left), or the component unchanged when
  the user is unknown.
\<close>

definition os_path_expanduser :: "filesystem \<Rightarrow> string \<Rightarrow> string" where
  "os_path_expanduser fs part =
     (if part = [] \<or> hd part \<noteq> CHR ''~'' then part
      else (case homes fs (tl part) of
              None \<Rightarrow> part
            | Some userhome \<Rightarrow>
                (let h = rstrip_sep userhome in if h = [] then ''/'' else h)))"

text \<open>
  \<^verbatim>\<open>Path.expanduser\<close>: only a path without root whose first component starts with
  \<^verbatim>\<open>~\<close> is expanded; the home directory is parsed like any path and the other components
  follow it.  When the home directory cannot be determined the method raises
  \<^verbatim>\<open>RuntimeError\<close>.
\<close>

definition expands :: "path \<Rightarrow> bool" where
  "expands p = (root p = [] \<and> parts p \<noteq> [] \<and> take 1 (hd (parts p)) = ''~'')"

definition expanduser :: "filesystem \<Rightarrow> path \<Rightarrow> error + path" where
  "expanduser fs p =
     (if expands p then
        (let homedir = os_path_expanduser fs (hd (parts p)) in
         if take 1 homedir = ''~'' then Inl (RuntimeError ''Could not determine home directory.'')
         else (let h = Path homedir in Inr (h\<lparr>parts := parts h @ tl (parts p)\<rparr>)))
      else Inr p)"

subsection \<open>\<^verbatim>\<open>VPSConfig.validate_ssh_key_path\<close>\<close>

text \<open>
  \<^verbatim>\<open>
  path = Path(v).expanduser()
  if not path.exists():
      raise ValueError(f"SSH key not found at: {v}")
  return str(path)
  \<close>
\<close>

definition validate_ssh_key_path :: "filesystem \<Rightarrow> string \<Rightarrow> error + string" where
  "validate_ssh_key_path fs v =
     (case expanduser fs (Path v) of
        Inl e \<Rightarrow> Inl e
      | Inr p \<Rightarrow>
          (case exists_path fs p of
             Inl e \<Rightarrow> Inl e
           | Inr found \<Rightarrow>
               if \<not> found then Inl (ValueError (''SSH key not found at: '' @ v))
               else Inr (str_path p)))"

subsection \<open>pydantic: validation results\<close>

text \<open>
  Validating a value gives the validated value, or the lines of a \<^verbatim>\<open>ValidationError\<close>,
  or an exception that is not a validation error: pydantic turns a \<^verbatim>\<open>ValueError\<close>
  raised by a validator into a line of the \<^verbatim>\<open>ValidationError\<close> and lets every other
  exception pass.
\<close>

datatype 'a res = Valid 'a | Invalid "line_error list" | Raise error

text \<open>
  The fields of a model are validated in the order of their declaration.  The lines of
  all the fields are collected; an exception ends the validation where it is raised.
\<close>

fun ap_res :: "('a \<Rightarrow> 'b) res \<Rightarrow> 'a res \<Rightarrow> 'b res" where
  "ap_res (Raise e) r = Raise e"
| "ap_res (Valid f) (Valid x) = Valid (f x)"
| "ap_res (Valid f) (Invalid es) = Invalid es"
| "ap_res (Valid f) (Raise e) = Raise e"
| "ap_res (Invalid es) (Valid x) = Invalid es"
| "ap_res (Invalid es) (Invalid es') = Invalid (es @ es')"
| "ap_res (Invalid es) (Raise e) = Raise e"

text \<open>The location of a line, seen from the enclosing value.\<close>

fun at_loc :: "loc_item \<Rightarrow> 'a res \<Rightarrow> 'a res" where
  "at_loc l (Valid x) = Valid x"
| "at_loc l (Invalid es) = Invalid (map (\<lambda>e. LineError (l # loc e) (err_type e) (msg e)) es)"
| "at_loc l (Raise e) = Raise e"

text \<open>A field without default (\<^verbatim>\<open>Field(...)\<close>) and a field with one.\<close>

definition required :: "pydict \<Rightarrow> string \<Rightarrow> (pyval \<Rightarrow> 'a res) \<Rightarrow> 'a res" where
  "required d k f =
     (case map_of d k of
        None \<Rightarrow> Invalid [LineError [Key k] ''missing'' ''Field required'']
      | Some v \<Rightarrow> at_loc (Key k) (f v))"

definition with_default :: "pydict \<Rightarrow> string \<Rightarrow> 'a \<Rightarrow> (pyval \<Rightarrow> 'a res) \<Rightarrow> 'a res" where
  "with_default d k dflt f =
     (case map_of d k of
        None \<Rightarrow> Valid dflt
      | Some v \<Rightarrow> at_loc (Key k) (f v))"

text \<open>
  A function validator in the default mode (\<^verbatim>\<open>after\<close>) runs on the value that the
  field's type accepted.
\<close>

definition after_validator :: "(pyval \<Rightarrow> 'a res) \<Rightarrow> ('a \<Rightarrow> error + 'a) \<Rightarrow> pyval \<Rightarrow> 'a res" where
  "after_validator f g v =
     (case f v of
        Valid x \<Rightarrow>
          (case g x of
             Inr y \<Rightarrow> Valid y
           | Inl (ValueError m) \<Rightarrow> Invalid [LineError [] ''value_error'' (''Value error, '' @ m)]
           | Inl e \<Rightarrow> Raise e)
      | Invalid es \<Rightarrow> Invalid es
      | Raise e \<Rightarrow> Raise e)"

subsection \<open>pydantic: the field types of the module (lax mode, Python input)\<close>

text \<open>\<^verbatim>\<open>str\<close>: numbers, booleans and dates are not strings.\<close>

definition validate_str :: "pyval \<Rightarrow> string res" where
  "validate_str v =
     (case v of
        PStr s \<Rightarrow> Valid s
      | _ \<Rightarrow> Invalid [LineError [] ''string_type'' ''Input should be a valid string''])"

text \<open>
  \<^verbatim>\<open>int\<close>: an integer; a boolean (a subclass of \<^verbatim>\<open>int\<close>) in lax mode; a string that
  pydantic can read as an integer.  How pydantic reads strings differs between its
  releases, so the reading is a parameter: \<open>str_as_int s\<close> is the integer read from
  \<open>s\<close>, if any.
\<close>

type_synonym int_parser = "string \<Rightarrow> int option"

definition validate_int :: "int_parser \<Rightarrow> pyval \<Rightarrow> int res" where
  "validate_int str_as_int v =
     (case v of
        PInt n \<Rightarrow> Valid n
      | PBool b \<Rightarrow> Valid (if b then 1 else 0)
      | PStr s \<Rightarrow>
          (case str_as_int s of
             Some n \<Rightarrow> Valid n
           | None \<Rightarrow> Invalid [LineError [] ''int_parsing''
               ''Input should be a valid integer, unable to parse string as an integer''])
      | _ \<Rightarrow> Invalid [LineError [] ''int_type'' ''Input should be a valid integer''])"

text \<open>\<^verbatim>\<open>T | None\<close>.\<close>

definition validate_nullable :: "(pyval \<Rightarrow> 'a res) \<Rightarrow> pyval \<Rightarrow> 'a option res" where
  "validate_nullable f v =
     (case v of
        PNone \<Rightarrow> Valid None
      | _ \<Rightarrow> ap_res (Valid Some) (f v))"

text \<open>\<^verbatim>\<open>list[T]\<close>: the items in order, each line located by the item's index.\<close>

fun list_items :: "(pyval \<Rightarrow> 'a res) \<Rightarrow> nat \<Rightarrow> pyval list \<Rightarrow> 'a list res" where
  "list_items f i [] = Valid []"
| "list_items f i (x # xs) =
     ap_res (ap_res (Valid (#)) (at_loc (Idx i) (f x))) (list_items f (Suc i) xs)"

definition validate_list :: "(pyval \<Rightarrow> 'a res) \<Rightarrow> pyval \<Rightarrow> 'a list res" where
  "validate_list f v =
     (case v of
        PList xs \<Rightarrow> list_items f 0 xs
      | _ \<Rightarrow> Invalid [LineError [] ''list_type'' ''Input should be a valid list''])"

text \<open>\<^verbatim>\<open>dict[str, T]\<close>: the items in order, each line located by the item's key.\<close>

fun dict_items :: "(pyval \<Rightarrow> 'a res) \<Rightarrow> pydict \<Rightarrow> (string \<times> 'a) list res" where
  "dict_items f [] = Valid []"
| "dict_items f ((k, x) # kvs) =
     ap_res (ap_res (Valid (\<lambda>y ys. (k, y) # ys)) (at_loc (Key k) (f x))) (dict_items f kvs)"

definition validate_dict :: "(pyval \<Rightarrow> 'a res) \<Rightarrow> pyval \<Rightarrow> (string \<times> 'a) list res" where
  "validate_dict f v =
     (case v of
        PDict kvs \<Rightarrow> dict_items f kvs
      | _ \<Rightarrow> Invalid [LineError [] ''dict_type'' ''Input should be a valid dictionary''])"

text \<open>\<^verbatim>\<open>Any\<close>.\<close>

definition validate_any :: "pyval \<Rightarrow> pyval res" where
  "validate_any v = Valid v"

text \<open>
  A field whose type is a model: a dictionary is validated field by field (keys that
  name no field are ignored, the default \<^verbatim>\<open>extra='ignore'\<close>).
\<close>

definition validate_model :: "string \<Rightarrow> (pydict \<Rightarrow> 'a res) \<Rightarrow> pyval \<Rightarrow> 'a res" where
  "validate_model cls_name f v =
     (case v of
        PDict kvs \<Rightarrow> f kvs
      | _ \<Rightarrow> Invalid [LineError [] ''model_type''
          (''Input should be a valid dictionary or instance of '' @ cls_name)])"

subsection \<open>The models\<close>

text \<open>
  \<^verbatim>\<open>class VPSConfig(BaseModel)\<close>: \<^verbatim>\<open>host\<close>, \<^verbatim>\<open>user\<close> and \<^verbatim>\<open>ssh_key_path\<close> are
  required, \<^verbatim>\<open>port\<close> defaults to 22 and \<^verbatim>\<open>email\<close> to \<^verbatim>\<open>None\<close>.
\<close>

record VPSConfig =
  host :: string
  user :: string
  ssh_key_path :: string
  port :: int
  email :: "string option"

definition VPSConfig_validate :: "int_parser \<Rightarrow> filesystem \<Rightarrow> pydict \<Rightarrow> VPSConfig res" where
  "VPSConfig_validate str_as_int fs d =
     ap_res (ap_res (ap_res (ap_res (ap_res
       (Valid (\<lambda>h u k p e. \<lparr>host = h, user = u, ssh_key_path = k, port = p, email = e\<rparr>))
       (required d ''host'' validate_str))
       (required d ''user'' validate_str))
       (required d ''ssh_key_path'' (after_validator validate_str (validate_ssh_key_path fs))))
       (with_default d ''port'' 22 (validate_int str_as_int)))
       (with_default d ''email'' None (validate_nullable validate_str))"

text \<open>
  \<^verbatim>\<open>class ServiceConfig(BaseModel)\<close>: every field has a default.  The field
  \<^verbatim>\<open>image\<close> is \<open>svc_image\<close> here.
\<close>

record ServiceConfig =
  svc_image :: "string option"
  environment :: "(string \<times> string) list"
  volumes :: "string list"
  ports :: "string list"
  depends_on :: "string list"
  extra :: pydict

definition ServiceConfig_validate :: "pydict \<Rightarrow> ServiceConfig res" where
  "ServiceConfig_validate d =
     ap_res (ap_res (ap_res (ap_res (ap_res (ap_res
       (Valid (\<lambda>i e v p dp x. \<lparr>svc_image = i, environment = e, volumes = v, ports = p,
                               depends_on = dp, extra = x\<rparr>))
       (with_default d ''image'' None (validate_nullable validate_str)))
       (with_default d ''environment'' [] (validate_dict validate_str)))
       (with_default d ''volumes'' [] (validate_list validate_str)))
       (with_default d ''ports'' [] (validate_list validate_str)))
       (with_default d ''depends_on'' [] (validate_list validate_str)))
       (with_default d ''extra'' [] (validate_dict validate_any))"

text \<open>
  \<^verbatim>\<open>class ApplicationConfig(BaseModel)\<close>: \<^verbatim>\<open>name\<close> and \<^verbatim>\<open>domain\<close> are required.  The
  fields \<^verbatim>\<open>context\<close>, \<^verbatim>\<open>port\<close> and \<^verbatim>\<open>environment\<close> are \<open>build_context\<close>,
  \<open>app_port\<close> and \<open>app_environment\<close> here.
\<close>

record ApplicationConfig =
  name :: string
  domain :: string
  dockerfile :: string
  build_context :: string
  app_port :: "int option"
  app_environment :: "(string \<times> string) list"
  dependencies :: "(string \<times> ServiceConfig) list"

definition ApplicationConfig_validate :: "int_parser \<Rightarrow> pydict \<Rightarrow> ApplicationConfig res" where
  "ApplicationConfig_validate str_as_int d =
     ap_res (ap_res (ap_res (ap_res (ap_res (ap_res (ap_res
       (Valid (\<lambda>n dm df c p e dp. \<lparr>name = n, domain = dm, dockerfile = df, build_context = c,
                                  app_port = p, app_environment = e, dependencies = dp\<rparr>))
       (required d ''name'' validate_str))
       (required d ''domain'' validate_str))
       (with_default d ''dockerfile'' ''./Dockerfile'' validate_str))
       (with_default d ''context'' ''.'' validate_str))
       (with_default d ''port'' None (validate_nullable (validate_int str_as_int))))
       (with_default d ''environment'' [] (validate_dict validate_str)))
       (with_default d ''dependencies'' []
          (validate_dict (validate_model ''ServiceConfig'' ServiceConfig_validate)))"

text \<open>\<^verbatim>\<open>class DockLiftConfig(BaseModel)\<close>: both fields are required.\<close>

record DockLiftConfig =
  vps :: VPSConfig
  application :: ApplicationConfig

definition DockLiftConfig_validate :: "int_parser \<Rightarrow> filesystem \<Rightarrow> pydict \<Rightarrow> DockLiftConfig res" where
  "DockLiftConfig_validate str_as_int fs d =
     ap_res (ap_res
       (Valid (\<lambda>v a. \<lparr>vps = v, application = a\<rparr>))
       (required d ''vps'' (validate_model ''VPSConfig'' (VPSConfig_validate str_as_int fs))))
       (required d ''application''
          (validate_model ''ApplicationConfig'' (ApplicationConfig_validate str_as_int)))"

text \<open>
  Calling a model class with keyword arguments: the instance, or the
  \<^verbatim>\<open>ValidationError\<close> with every line, or the exception that passed through.
\<close>

definition init :: "'a res \<Rightarrow> error + 'a" where
  "init r = (case r of Valid x \<Rightarrow> Inr x | Invalid es \<Rightarrow> Inl (ValidationError es) | Raise e \<Rightarrow> Inl e)"

subsection \<open>pydantic: \<^verbatim>\<open>model_dump(mode="json")\<close>\<close>

text \<open>\<^verbatim>\<open>date.isoformat()\<close>: \<^verbatim>\<open>"%04d-%02d-%02d"\<close>.\<close>

definition digit :: "nat \<Rightarrow> char" where
  "digit n = ''0123456789'' ! (n mod 10)"

definition isoformat :: "nat \<Rightarrow> nat \<Rightarrow> nat \<Rightarrow> string" where
  "isoformat y m d =
     [digit (y div 1000), digit (y div 100), digit (y div 10), digit y] @ ''-''
     @ [digit (m div 10), digit m] @ ''-'' @ [digit (d div 10), digit d]"

text \<open>
  A value of type \<^verbatim>\<open>Any\<close> is serialised by what it is at run time: in JSON mode a date
  becomes its ISO text, and the items of lists and dictionaries are serialised in turn.
\<close>

fun to_jsonable :: "pyval \<Rightarrow> pyval" where
  "to_jsonable (PDate y m d) = PStr (isoformat y m d)"
| "to_jsonable (PList xs) = PList (map to_jsonable xs)"
| "to_jsonable (PDict kvs) = PDict (map (\<lambda>(k, v). (k, to_jsonable v)) kvs)"
| "to_jsonable v = v"


definition dump_opt :: "('a \<Rightarrow> pyval) \<Rightarrow> 'a option \<Rightarrow> pyval" where
  "dump_opt f x = (case x of None \<Rightarrow> PNone | Some y \<Rightarrow> f y)"

definition dump_dict :: "('a \<Rightarrow> pyval) \<Rightarrow> (string \<times> 'a) list \<Rightarrow> pyval" where
  "dump_dict f kvs = PDict (map (\<lambda>(k, v). (k, f v)) kvs)"

text \<open>Every field is dumped, in the order of declaration, defaults and \<^verbatim>\<open>None\<close> included.\<close>

definition VPSConfig_dump :: "VPSConfig \<Rightarrow> pyval" where
  "VPSConfig_dump c =
     PDict [(''host'', PStr (host c)), (''user'', PStr (user c)),
            (''ssh_key_path'', PStr (ssh_key_path c)), (''port'', PInt (port c)),
            (''email'', dump_opt PStr (email c))]"

definition ServiceConfig_dump :: "ServiceConfig \<Rightarrow> pyval" where
  "ServiceConfig_dump s =
     PDict [(''image'', dump_opt PStr (svc_image s)),
            (''environment'', dump_dict PStr (environment s)),
            (''volumes'', PList (map PStr (volumes s))),
            (''ports'', PList (map PStr (ports s))),
            (''depends_on'', PList (map PStr (depends_on s))),
            (''extra'', dump_dict to_jsonable (extra s))]"

definition ApplicationConfig_dump :: "ApplicationConfig \<Rightarrow> pyval" where
  "ApplicationConfig_dump a =
     PDict [(''name'', PStr (name a)), (''domain'', PStr (domain a)),
            (''dockerfile'', PStr (dockerfile a)), (''context'', PStr (build_context a)),
            (''port'', dump_opt PInt (app_port a)),
            (''environment'', dump_dict PStr (app_environment a)),
            (''dependencies'', dump_dict ServiceConfig_dump (dependencies a))]"

definition model_dump :: "DockLiftConfig \<Rightarrow> pyval" where
  "model_dump c =
     PDict [(''vps'', VPSConfig_dump (vps c)),
            (''application'', ApplicationConfig_dump (application c))]"

subsection \<open>PyYAML: representer, emitter and constructor\<close>

text \<open>
  \<^verbatim>\<open>yaml.dump(data, f, default_flow_style=False)\<close>.  The representer sorts the items of
  every mapping by key (\<^verbatim>\<open>sort_keys=True\<close> is the default) and gives every collection
  node the \<^verbatim>\<open>flow_style\<close> of \<^verbatim>\<open>default_flow_style\<close>.
\<close>

fun represent :: "bool \<Rightarrow> pyval \<Rightarrow> node" where
  "represent dfs PNone = NNull"
| "represent dfs (PBool b) = NBool b"
| "represent dfs (PInt n) = NInt n"
| "represent dfs (PStr s) = NStr s"
| "represent dfs (PDate y m d) = NTimestamp y m d"
| "represent dfs (PList xs) = NSeq dfs (map (represent dfs) xs)"
| "represent dfs (PDict kvs) = NMap dfs (sort_key fst (map (\<lambda>(k, v). (k, represent dfs v)) kvs))"

text \<open>
  The emitter (\<^verbatim>\<open>expect_node\<close>) writes a collection in flow style when it is inside a
  flow collection, when its node asks for flow style, or when it is empty (\<^verbatim>\<open>[]\<close>,
  \<^verbatim>\<open>{}\<close>); in block style otherwise.  \<open>emit\<close> gives every collection node the style it
  is written in; its first argument tells whether the node is inside a flow collection.
\<close>

fun emit :: "bool \<Rightarrow> node \<Rightarrow> node" where
  "emit inside (NSeq fl ns) = NSeq (inside \<or> fl \<or> ns = []) (map (emit (inside \<or> fl \<or> ns = [])) ns)"
| "emit inside (NMap fl kns) =
     NMap (inside \<or> fl \<or> kns = []) (map (\<lambda>(k, n). (k, emit (inside \<or> fl \<or> kns = []) n)) kns)"
| "emit inside n = n"

definition yaml_dump :: "pyval \<Rightarrow> bool \<Rightarrow> file_content" where
  "yaml_dump data default_flow_style = Doc (emit False (represent default_flow_style data))"

text \<open>\<^verbatim>\<open>mapping[key] = value\<close>: a key that is there keeps its place and takes the new value.\<close>

fun dict_set :: "(string \<times> 'a) list \<Rightarrow> string \<Rightarrow> 'a \<Rightarrow> (string \<times> 'a) list" where
  "dict_set [] k v = [(k, v)]"
| "dict_set ((k', v') # kvs) k v =
     (if k' = k then (k', v) # kvs else (k', v') # dict_set kvs k v)"

definition dict_of_items :: "(string \<times> 'a) list \<Rightarrow> (string \<times> 'a) list" where
  "dict_of_items kvs = foldl (\<lambda>d (k, v). dict_set d k v) [] kvs"

text \<open>
  \<^verbatim>\<open>datetime.date(year, month, day)\<close>, which the constructor calls for a timestamp
  scalar that spells a date: a \<^verbatim>\<open>ValueError\<close> when there is no such day.
\<close>

fun decimal :: "nat \<Rightarrow> string" where
  "decimal n = (if n < 10 then [digit n] else decimal (n div 10) @ [digit n])"

declare decimal.simps [simp del]

definition days_in_month :: "nat \<Rightarrow> nat \<Rightarrow> nat" where
  "days_in_month y m =
     (if m = 2 then (if y mod 4 = 0 \<and> (y mod 100 \<noteq> 0 \<or> y mod 400 = 0) then 29 else 28)
      else if m = 4 \<or> m = 6 \<or> m = 9 \<or> m = 11 then 30
      else 31)"

definition date :: "nat \<Rightarrow> nat \<Rightarrow> nat \<Rightarrow> error + pyval" where
  "date y m d =
     (if y < 1 \<or> 9999 < y then Inl (ValueError (''year '' @ decimal y @ '' is out of range''))
      else if m < 1 \<or> 12 < m then Inl (ValueError ''month must be in 1..12'')
      else if d < 1 \<or> days_in_month y m < d then Inl (ValueError ''day is out of range for month'')
      else Inr (PDate y m d))"

text \<open>The values of a list of results, or the first exception among them.\<close>

fun collect :: "(error + 'a) list \<Rightarrow> error + 'a list" where
  "collect [] = Inr []"
| "collect (r # rs) =
     (case r of
        Inl e \<Rightarrow> Inl e
      | Inr x \<Rightarrow> (case collect rs of Inl e \<Rightarrow> Inl e | Inr xs \<Rightarrow> Inr (x # xs)))"

text \<open>
  The constructor builds the Python value of the node graph, the items of a collection in
  the order of the document.  (PyYAML fills the collections level by level; when a
  document holds several timestamps that are no dates, the \<^verbatim>\<open>ValueError\<close> it raises can
  be the one of another of them.)
\<close>

fun construct :: "node \<Rightarrow> error + pyval" where
  "construct NNull = Inr PNone"
| "construct (NBool b) = Inr (PBool b)"
| "construct (NInt n) = Inr (PInt n)"
| "construct (NStr s) = Inr (PStr s)"
| "construct (NTimestamp y m d) = date y m d"
| "construct (NSeq fl ns) =
     (case collect (map construct ns) of
        Inl e \<Rightarrow> Inl e
      | Inr xs \<Rightarrow> Inr (PList xs))"
| "construct (NMap fl kns) =
     (case collect (map (\<lambda>(k, n). case construct n of Inl e \<Rightarrow> Inl e | Inr v \<Rightarrow> Inr (k, v)) kns) of
        Inl e \<Rightarrow> Inl e
      | Inr kvs \<Rightarrow> Inr (PDict (dict_of_items kvs)))"

text \<open>
  \<^verbatim>\<open>yaml.safe_load(f)\<close> on a file opened as text: reading bytes that are not text is a
  \<^verbatim>\<open>UnicodeDecodeError\<close>, text that is not YAML is a \<^verbatim>\<open>YAMLError\<close>; an empty stream
  loads as \<^verbatim>\<open>None\<close>, like the null document.
\<close>

definition safe_load :: "file_content \<Rightarrow> error + pyval" where
  "safe_load c =
     (case c of
        Undecodable \<Rightarrow> Inl UnicodeDecodeError
      | Malformed \<Rightarrow> Inl YAMLError
      | Doc n \<Rightarrow> construct n)"

subsection \<open>Files and directories\<close>

text \<open>\<^verbatim>\<open>open(path)\<close> for reading.\<close>

definition open_read :: "filesystem \<Rightarrow> path \<Rightarrow> error + file_content" where
  "open_read fs p =
     (case resolve fs p of
        ENAMETOOLONG \<Rightarrow> Inl (OSError 36 (str_path p))
      | ENOTDIR \<Rightarrow> Inl (NotADirectoryError (str_path p))
      | ENOENT \<Rightarrow> Inl (FileNotFoundError (str_path p))
      | Found l \<Rightarrow>
          if dir_at fs l then Inl (IsADirectoryError (str_path p))
          else (case files fs l of
                  None \<Rightarrow> Inl (FileNotFoundError (str_path p))
                | Some c \<Rightarrow> Inr c))"

text \<open>
  \<^verbatim>\<open>open(path, "w")\<close> and the write that follows: the file at the place that the path
  leads to is created or truncated, nothing else is touched.
\<close>

definition open_write :: "filesystem \<Rightarrow> path \<Rightarrow> file_content \<Rightarrow> error + filesystem" where
  "open_write fs p c =
     (case resolve fs p of
        ENAMETOOLONG \<Rightarrow> Inl (OSError 36 (str_path p))
      | ENOTDIR \<Rightarrow> Inl (NotADirectoryError (str_path p))
      | ENOENT \<Rightarrow> Inl (FileNotFoundError (str_path p))
      | Found l \<Rightarrow>
          if dir_at fs l then Inl (IsADirectoryError (str_path p))
          else Inr (fs\<lparr>files := (files fs)(l \<mapsto> c)\<rparr>))"

text \<open>\<^verbatim>\<open>os.mkdir(path)\<close>.\<close>

definition os_mkdir :: "filesystem \<Rightarrow> path \<Rightarrow> error + filesystem" where
  "os_mkdir fs p =
     (case resolve fs p of
        ENAMETOOLONG \<Rightarrow> Inl (OSError 36 (str_path p))
      | ENOTDIR \<Rightarrow> Inl (NotADirectoryError (str_path p))
      | ENOENT \<Rightarrow> Inl (FileNotFoundError (str_path p))
      | Found l \<Rightarrow>
          if dir_at fs l \<or> files fs l \<noteq> None then Inl (FileExistsError (str_path p))
          else Inr (fs\<lparr>dirs := insert l (dirs fs)\<rparr>))"

text \<open>
  \<^verbatim>\<open>Path.mkdir(parents, exist_ok)\<close>:
  \<^verbatim>\<open>
  try:
      os.mkdir(self, mode)
  except FileNotFoundError:
      if not parents or self.parent == self:
          raise
      self.parent.mkdir(parents=True, exist_ok=True)
      self.mkdir(mode, parents=False, exist_ok=exist_ok)
  except OSError:
      if not exist_ok or not self.is_dir():
          raise
  \<close>
\<close>

function mkdir :: "filesystem \<Rightarrow> path \<Rightarrow> bool \<Rightarrow> bool \<Rightarrow> error + filesystem" where
  "mkdir fs p parents exist_ok =
     (case os_mkdir fs p of
        Inr fs' \<Rightarrow> Inr fs'
      | Inl (FileNotFoundError m) \<Rightarrow>
          if \<not> parents \<or> parent p = p then Inl (FileNotFoundError m)
          else (case mkdir fs (parent p) True True of
                  Inl e \<Rightarrow> Inl e
                | Inr fs1 \<Rightarrow> mkdir fs1 p False exist_ok)
      | Inl e \<Rightarrow>
          if \<not> exist_ok then Inl e
          else (case is_dir fs p of
                  Inl e' \<Rightarrow> Inl e'
                | Inr d \<Rightarrow> if \<not> d then Inl e else Inr fs))"
  by pat_completeness auto
termination
proof (relation "measure (\<lambda>(fs, p, parents, exist_ok). 2 * length (parts p) + (if parents then 1 else 0))")
  show "wf (measure (\<lambda>(fs, p, parents, exist_ok). 2 * length (parts p) + (if parents then 1 else 0)))"
    by simp
next
  fix fs :: filesystem and p :: path and parents exist_ok :: bool and a x1
  assume "\<not> (\<not> parents \<or> parent p = p)"
  then have "parents" and "parts p \<noteq> []"
    by (auto simp: parent_def)
  then show "((fs, parent p, True, True), fs, p, parents, exist_ok)
      \<in> measure (\<lambda>(fs, p, parents, exist_ok). 2 * length (parts p) + (if parents then 1 else 0))"
    by (cases "parts p") (auto simp: parent_def)
next
  fix fs :: filesystem and p :: path and parents exist_ok :: bool and a x1 x2 y
  assume "\<not> (\<not> parents \<or> parent p = p)"
  then show "((y, p, False, exist_ok), fs, p, parents, exist_ok)
      \<in> measure (\<lambda>(fs, p, parents, exist_ok). 2 * length (parts p) + (if parents then 1 else 0))"
    by auto
qed

declare mkdir.simps [simp del]

subsection \<open>\<^verbatim>\<open>DockLiftConfig.from_yaml\<close> and \<^verbatim>\<open>DockLiftConfig.to_yaml\<close>\<close>

definition type_name :: "pyval \<Rightarrow> string" where
  "type_name v =
     (case v of
        PNone \<Rightarrow> ''NoneType'' | PBool b \<Rightarrow> ''bool'' | PInt n \<Rightarrow> ''int'' | PStr s \<Rightarrow> ''str''
      | PDate y m d \<Rightarrow> ''datetime.date'' | PList xs \<Rightarrow> ''list'' | PDict kvs \<Rightarrow> ''dict'')"

text \<open>
  \<^verbatim>\<open>cls(**data)\<close>: unpacking anything but a mapping is a \<^verbatim>\<open>TypeError\<close> of the call
  itself, raised before pydantic sees the data.  Its message names the callable by module
  and qualified name, and the type of the data.  (A mapping with a key that is not a
  string, which is outside the values modelled here, is a \<^verbatim>\<open>TypeError\<close> of the call as
  well: \<^verbatim>\<open>keywords must be strings\<close>.)
\<close>

definition DockLiftConfig_init :: "int_parser \<Rightarrow> filesystem \<Rightarrow> pyval \<Rightarrow> error + DockLiftConfig" where
  "DockLiftConfig_init str_as_int fs data =
     (case data of
        PDict kwargs \<Rightarrow> init (DockLiftConfig_validate str_as_int fs kwargs)
      | _ \<Rightarrow> Inl (TypeError (''docklift.config.DockLiftConfig() argument after ** must be a mapping, not ''
                               @ type_name data)))"

text \<open>
  \<^verbatim>\<open>
  yaml_path = Path(path)
  if not yaml_path.exists():
      raise FileNotFoundError(f"Configuration file not found: {path}")
  with open(yaml_path) as f:
      data = yaml.safe_load(f)
  return cls(**data)
  \<close>
\<close>

definition from_yaml :: "int_parser \<Rightarrow> filesystem \<Rightarrow> string \<Rightarrow> error + DockLiftConfig" where
  "from_yaml str_as_int fs path =
     (let yaml_path = Path path in
      case exists_path fs yaml_path of
        Inl e \<Rightarrow> Inl e
      | Inr found \<Rightarrow>
          if \<not> found
          then Inl (FileNotFoundError (''Configuration file not found: '' @ path))
          else (case open_read fs yaml_path of
                  Inl e \<Rightarrow> Inl e
                | Inr f \<Rightarrow>
                    (case safe_load f of
                       Inl e \<Rightarrow> Inl e
                     | Inr data \<Rightarrow> DockLiftConfig_init str_as_int fs data)))"

text \<open>
  \<^verbatim>\<open>
  yaml_path = Path(path)
  yaml_path.parent.mkdir(parents=True, exist_ok=True)
  with open(yaml_path, "w") as f:
      yaml.dump(self.model_dump(mode="json"), f, default_flow_style=False)
  \<close>
\<close>

definition to_yaml :: "filesystem \<Rightarrow> DockLiftConfig \<Rightarrow> string \<Rightarrow> error + filesystem" where
  "to_yaml fs self path =
     (let yaml_path = Path path in
      case mkdir fs (parent yaml_path) True True of
        Inl e \<Rightarrow> Inl e
      | Inr fs1 \<Rightarrow> open_write fs1 yaml_path (yaml_dump (model_dump self) False))"

subsection \<open>Notions used in the properties\<close>

text \<open>\<^verbatim>\<open>os.path.isabs\<close> on POSIX.\<close>

definition os_path_isabs :: "string \<Rightarrow> bool" where
  "os_path_isabs s = (take 1 s = ''/'')"

text \<open>A validation that ends in an exception, and the lines of one that ends in errors.\<close>

definition raises :: "'a res \<Rightarrow> bool" where
  "raises r = (case r of Raise e \<Rightarrow> True | _ \<Rightarrow> False)"

definition lines :: "'a res \<Rightarrow> line_error set" where
  "lines r = (case r of Invalid es \<Rightarrow> set es | _ \<Rightarrow> {})"

text \<open>
  Concrete inputs: a reader of integers that reads no string, and a machine with user
  \<^verbatim>\<open>deploy\<close>, a key in the home directory and one in the current directory
  \<^verbatim>\<open>/srv/app\<close>.
\<close>

definition no_str_as_int :: int_parser where
  "no_str_as_int s = None"

definition demo_fs :: filesystem where
  "demo_fs =
     \<lparr>files = [[''home'', ''deploy'', ''.ssh'', ''id_rsa''] \<mapsto> Malformed,
               [''srv'', ''app'', ''id_rsa''] \<mapsto> Malformed],
      dirs = {[''home''], [''home'', ''deploy''], [''home'', ''deploy'', ''.ssh'']},
      cwd = [''srv'', ''app''],
      homes = ['''' \<mapsto> ''/home/deploy'']\<rparr>"

definition demo_vps :: "string \<Rightarrow> pydict" where
  "demo_vps key = [(''host'', PStr ''1.2.3.4''), (''user'', PStr ''deploy''), (''ssh_key_path'', PStr key)]"

text \<open>A name of 300 characters.\<close>

definition long_name :: string where
  "long_name = replicate 300 CHR ''a''"

text \<open>
  What is at a path, when the lookup reaches a place: a directory, a regular file, the
  content of a regular file.
\<close>

definition directory :: "filesystem \<Rightarrow> path \<Rightarrow> bool" where
  "directory fs p = (case resolve fs p of Found l \<Rightarrow> dir_at fs l | _ \<Rightarrow> False)"

definition regular_file :: "filesystem \<Rightarrow> path \<Rightarrow> bool" where
  "regular_file fs p = (case resolve fs p of Found l \<Rightarrow> file_at fs l | _ \<Rightarrow> False)"

text \<open>
  The paths that \<^verbatim>\<open>Path(v)\<close> and \<^verbatim>\<open>expanduser\<close> build: one of the three roots, and
  components that are not empty and hold no separator.
\<close>

definition wf_path :: "path \<Rightarrow> bool" where
  "wf_path p = (root p \<in> {[], ''/'', ''//''} \<and> (\<forall>x \<in> set (parts p). x \<noteq> [] \<and> CHR ''/'' \<notin> set x))"

text \<open>
  The shapes that the fields of a \<^verbatim>\<open>ServiceConfig\<close> accept: a string, a list of
  strings, a dictionary, a dictionary of strings.
\<close>

definition is_str :: "pyval \<Rightarrow> bool" where
  "is_str v = (case v of PStr s \<Rightarrow> True | _ \<Rightarrow> False)"

definition is_str_list :: "pyval \<Rightarrow> bool" where
  "is_str_list v = (case v of PList xs \<Rightarrow> list_all is_str xs | _ \<Rightarrow> False)"

definition is_dict :: "pyval \<Rightarrow> bool" where
  "is_dict v = (case v of PDict kvs \<Rightarrow> True | _ \<Rightarrow> False)"

definition is_str_dict :: "pyval \<Rightarrow> bool" where
  "is_str_dict v = (case v of PDict kvs \<Rightarrow> list_all (\<lambda>kv. is_str (snd kv)) kvs | _ \<Rightarrow> False)"

definition well_shaped :: "string \<Rightarrow> pyval \<Rightarrow> bool" where
  "well_shaped k v =
     (if k = ''image'' then v = PNone \<or> is_str v
      else if k = ''environment'' then is_str_dict v
      else if k = ''volumes'' \<or> k = ''ports'' \<or> k = ''depends_on'' then is_str_list v
      else if k = ''extra'' then is_dict v
      else True)"

text \<open>The application block and the service of the example scenarios.\<close>

definition demo_app :: pydict where
  "demo_app = [(''name'', PStr ''blog''), (''domain'', PStr ''blog.example.com'')]"

definition demo_db :: pydict where
  "demo_db = [(''image'', PStr ''postgres:15''),
              (''environment'', PDict [(''POSTGRES_PASSWORD'', PStr ''x'')])]"

text \<open>
  The document of the example scenario, in a file; a file that holds the empty document;
  and a file whose document gives both blocks no value.
\<close>

definition demo_doc :: node where
  "demo_doc =
     NMap False
       [(''vps'', NMap False [(''host'', NStr ''1.2.3.4''), (''user'', NStr ''deploy''),
                              (''ssh_key_path'', NStr ''~/.ssh/id_rsa'')]),
        (''application'', NMap False [(''name'', NStr ''blog''),
                                      (''domain'', NStr ''blog.example.com'')])]"

definition doc_fs :: filesystem where
  "doc_fs = demo_fs\<lparr>files := (files demo_fs)
     ([''srv'', ''app'', ''docklift.yml''] \<mapsto> Doc demo_doc,
      [''srv'', ''app'', ''empty.yml''] \<mapsto> Doc NNull,
      [''srv'', ''app'', ''blocks.yml'']
        \<mapsto> Doc (NMap False [(''vps'', NNull), (''application'', NNull)]))\<rparr>"

text \<open>\<^verbatim>\<open>path.parents\<close>: the ancestors of a path, the nearest first.\<close>

definition parents :: "path \<Rightarrow> path list" where
  "parents p = map (\<lambda>i. p\<lparr>parts := take i (parts p)\<rparr>) (rev [0..<length (parts p)])"

text \<open>
  The place that a path without \<^verbatim>\<open>..\<close> leads to, and the paths at which
  \<^verbatim>\<open>to_yaml\<close> is shown to succeed: no \<^verbatim>\<open>..\<close>, no name that is too long, no regular
  file at the place of an ancestor, no directory at the place of the path.
\<close>

definition place_of :: "filesystem \<Rightarrow> path \<Rightarrow> place" where
  "place_of fs p = (if root p = [] then cwd fs else []) @ parts p"

definition writable :: "filesystem \<Rightarrow> path \<Rightarrow> bool" where
  "writable fs p =
     (''..'' \<notin> set (parts p)
      \<and> (\<forall>x \<in> set (parts p). length x \<le> 255)
      \<and> (\<forall>a \<in> set (p # parents p). length (str_path a) \<le> 4095)
      \<and> (\<forall>a \<in> set (parents p). \<not> file_at fs (place_of fs a))
      \<and> \<not> dir_at fs (place_of fs p))"




text \<open>
  The document of a configuration as the file format has it.  A value of \<^verbatim>\<open>extra\<close> is
  written as it is, a date as the string of its ISO text; a mapping lists its keys in
  ascending order; an empty mapping is written \<^verbatim>\<open>{}\<close> and an empty list \<^verbatim>\<open>[]\<close>, every
  other collection in block style.
\<close>

fun value_node :: "pyval \<Rightarrow> node" where
  "value_node PNone = NNull"
| "value_node (PBool b) = NBool b"
| "value_node (PInt n) = NInt n"
| "value_node (PStr s) = NStr s"
| "value_node (PDate y m d) = NStr (isoformat y m d)"
| "value_node (PList xs) = NSeq (xs = []) (map value_node xs)"
| "value_node (PDict kvs) = NMap (kvs = []) (map (\<lambda>(k, v). (k, value_node v)) (sort_key fst kvs))"

definition opt_node :: "('a \<Rightarrow> node) \<Rightarrow> 'a option \<Rightarrow> node" where
  "opt_node f x = (case x of None \<Rightarrow> NNull | Some y \<Rightarrow> f y)"

definition seq_node :: "string list \<Rightarrow> node" where
  "seq_node xs = NSeq (xs = []) (map NStr xs)"

definition map_node :: "('a \<Rightarrow> node) \<Rightarrow> (string \<times> 'a) list \<Rightarrow> node" where
  "map_node f kvs = NMap (kvs = []) (map (\<lambda>(k, v). (k, f v)) (sort_key fst kvs))"

definition service_document :: "ServiceConfig \<Rightarrow> node" where
  "service_document s =
     NMap False
       [(''depends_on'', seq_node (depends_on s)),
        (''environment'', map_node NStr (environment s)),
        (''extra'', map_node value_node (extra s)),
        (''image'', opt_node NStr (svc_image s)),
        (''ports'', seq_node (ports s)),
        (''volumes'', seq_node (volumes s))]"

definition document :: "DockLiftConfig \<Rightarrow> node" where
  "document c =
     NMap False
       [(''application'', NMap False
           [(''context'', NStr (build_context (application c))),
            (''dependencies'', map_node service_document (dependencies (application c))),
            (''dockerfile'', NStr (dockerfile (application c))),
            (''domain'', NStr (domain (application c))),
            (''environment'', map_node NStr (app_environment (application c))),
            (''name'', NStr (name (application c))),
            (''port'', opt_node NInt (app_port (application c)))]),
        (''vps'', NMap False
           [(''email'', opt_node NStr (email (vps c))),
            (''host'', NStr (host (vps c))),
            (''port'', NInt (port (vps c))),
            (''ssh_key_path'', NStr (ssh_key_path (vps c))),
            (''user'', NStr (user (vps c)))])]"

text \<open>A configuration with one dependency.\<close>

definition demo_cfg :: DockLiftConfig where
  "demo_cfg =
     \<lparr>vps = \<lparr>host = ''1.2.3.4'', user = ''deploy'', ssh_key_path = ''/home/deploy/.ssh/id_rsa'',
              port = 22, email = None\<rparr>,
      application = \<lparr>name = ''blog'', domain = ''blog.example.com'', dockerfile = ''./Dockerfile'',
                      build_context = ''.'', app_port = None,
                      app_environment = [(''MODE'', ''prod''), (''DEBUG'', ''0'')],
                      dependencies = [(''db'', \<lparr>svc_image = Some ''postgres:15'',
                          environment = [(''POSTGRES_PASSWORD'', ''x'')], volumes = [], ports = [],
                          depends_on = [], extra = []\<rparr>)]\<rparr>\<rparr>"

text \<open>
  Equality of Python values (\<^verbatim>\<open>==\<close>): two dictionaries are equal when they have the
  same number of items and every key of the first has an equal value in the second,
  whatever the order of insertion; lists are equal item by item; a boolean is equal to
  the integer it counts as (\<^verbatim>\<open>True == 1\<close>, \<^verbatim>\<open>False == 0\<close>); \<^verbatim>\<open>None\<close>, strings and
  dates are equal to themselves only.  Two models are equal when their fields are.
\<close>

definition dict_eq :: "('a \<Rightarrow> 'b \<Rightarrow> bool) \<Rightarrow> (string \<times> 'a) list \<Rightarrow> (string \<times> 'b) list \<Rightarrow> bool" where
  "dict_eq R a b =
     (length a = length b \<and>
      (\<forall>(k, v) \<in> set a. case map_of b k of None \<Rightarrow> False | Some w \<Rightarrow> R v w))"

fun py_eq :: "pyval \<Rightarrow> pyval \<Rightarrow> bool" where
  "py_eq (PList xs) v = (case v of PList ys \<Rightarrow> list_all2 py_eq xs ys | _ \<Rightarrow> False)"
| "py_eq (PDict a) v =
     (case v of
        PDict b \<Rightarrow>
          length a = length b \<and>
          (\<forall>(k, x) \<in> set a. case map_of b k of None \<Rightarrow> False | Some y \<Rightarrow> py_eq x y)
      | _ \<Rightarrow> False)"
| "py_eq (PBool b) v =
     (case v of PBool c \<Rightarrow> b = c | PInt n \<Rightarrow> n = (if b then 1 else 0) | _ \<Rightarrow> False)"
| "py_eq (PInt n) v =
     (case v of PInt m \<Rightarrow> n = m | PBool b \<Rightarrow> n = (if b then 1 else 0) | _ \<Rightarrow> False)"
| "py_eq u v = (u = v)"

definition ServiceConfig_eq :: "ServiceConfig \<Rightarrow> ServiceConfig \<Rightarrow> bool" where
  "ServiceConfig_eq s t =
     (svc_image s = svc_image t \<and> dict_eq (=) (environment s) (environment t)
      \<and> volumes s = volumes t \<and> ports s = ports t \<and> depends_on s = depends_on t
      \<and> dict_eq py_eq (extra s) (extra t))"

definition ApplicationConfig_eq :: "ApplicationConfig \<Rightarrow> ApplicationConfig \<Rightarrow> bool" where
  "ApplicationConfig_eq a b =
     (name a = name b \<and> domain a = domain b \<and> dockerfile a = dockerfile b
      \<and> build_context a = build_context b \<and> app_port a = app_port b
      \<and> dict_eq (=) (app_environment a) (app_environment b)
      \<and> dict_eq ServiceConfig_eq (dependencies a) (dependencies b))"

definition DockLiftConfig_eq :: "DockLiftConfig \<Rightarrow> DockLiftConfig \<Rightarrow> bool" where
  "DockLiftConfig_eq c d = (vps c = vps d \<and> ApplicationConfig_eq (application c) (application d))"

text \<open>
  Equality of Python values that have the same types as well: as \<^verbatim>\<open>==\<close>, but a boolean
  is equal to a boolean only and an integer to an integer only.
\<close>

fun same_value :: "pyval \<Rightarrow> pyval \<Rightarrow> bool" where
  "same_value (PList xs) v = (case v of PList ys \<Rightarrow> list_all2 same_value xs ys | _ \<Rightarrow> False)"
| "same_value (PDict a) v =
     (case v of
        PDict b \<Rightarrow>
          length a = length b \<and>
          (\<forall>(k, x) \<in> set a. case map_of b k of None \<Rightarrow> False | Some y \<Rightarrow> same_value x y)
      | _ \<Rightarrow> False)"
| "same_value u v = (u = v)"

definition ServiceConfig_same :: "ServiceConfig \<Rightarrow> ServiceConfig \<Rightarrow> bool" where
  "ServiceConfig_same s t =
     (svc_image s = svc_image t \<and> dict_eq (=) (environment s) (environment t)
      \<and> volumes s = volumes t \<and> ports s = ports t \<and> depends_on s = depends_on t
      \<and> dict_eq same_value (extra s) (extra t))"

definition ApplicationConfig_same :: "ApplicationConfig \<Rightarrow> ApplicationConfig \<Rightarrow> bool" where
  "ApplicationConfig_same a b =
     (name a = name b \<and> domain a = domain b \<and> dockerfile a = dockerfile b
      \<and> build_context a = build_context b \<and> app_port a = app_port b
      \<and> dict_eq (=) (app_environment a) (app_environment b)
      \<and> dict_eq ServiceConfig_same (dependencies a) (dependencies b))"

definition DockLiftConfig_same :: "DockLiftConfig \<Rightarrow> DockLiftConfig \<Rightarrow> bool" where
  "DockLiftConfig_same c d = (vps c = vps d \<and> ApplicationConfig_same (application c) (application d))"

text \<open>The keys of a Python dictionary are distinct.\<close>

fun wf_pyval :: "pyval \<Rightarrow> bool" where
  "wf_pyval (PList xs) = (\<forall>x \<in> set xs. wf_pyval x)"
| "wf_pyval (PDict kvs) = (distinct (map fst kvs) \<and> (\<forall>(k, v) \<in> set kvs. wf_pyval v))"
| "wf_pyval v = True"

definition wf_ServiceConfig :: "ServiceConfig \<Rightarrow> bool" where
  "wf_ServiceConfig s =
     (distinct (map fst (environment s)) \<and> distinct (map fst (extra s))
      \<and> (\<forall>(k, v) \<in> set (extra s). wf_pyval v))"

definition wf_config :: "DockLiftConfig \<Rightarrow> bool" where
  "wf_config c =
     (distinct (map fst (app_environment (application c)))
      \<and> distinct (map fst (dependencies (application c)))
      \<and> (\<forall>(k, s) \<in> set (dependencies (application c)). wf_ServiceConfig s))"

text \<open>
  The values that JSON has: no dates.  A configuration whose \<^verbatim>\<open>extra\<close> mappings hold
  such values only.
\<close>

fun json_native :: "pyval \<Rightarrow> bool" where
  "json_native (PDate y m d) = False"
| "json_native (PList xs) = (\<forall>x \<in> set xs. json_native x)"
| "json_native (PDict kvs) = (\<forall>(k, v) \<in> set kvs. json_native v)"
| "json_native v = True"

definition json_native_config :: "DockLiftConfig \<Rightarrow> bool" where
  "json_native_config c =
     (\<forall>(k, s) \<in> set (dependencies (application c)). \<forall>(k', v) \<in> set (extra s). json_native v)"

text \<open>The same configuration with the environment inserted in another order.\<close>

definition demo_cfg_reordered :: DockLiftConfig where
  "demo_cfg_reordered =
     demo_cfg\<lparr>application := (application demo_cfg)
       \<lparr>app_environment := [(''DEBUG'', ''0''), (''MODE'', ''prod'')]\<rparr>\<rparr>"

text \<open>
  The value of a node graph when every timestamp in it is a date, and the graphs without
  timestamps.
\<close>

fun build :: "node \<Rightarrow> pyval" where
  "build NNull = PNone"
| "build (NBool b) = PBool b"
| "build (NInt n) = PInt n"
| "build (NStr s) = PStr s"
| "build (NTimestamp y m d) = PDate y m d"
| "build (NSeq fl ns) = PList (map build ns)"
| "build (NMap fl kns) = PDict (dict_of_items (map (\<lambda>(k, n). (k, build n)) kns))"

fun no_timestamp :: "node \<Rightarrow> bool" where
  "no_timestamp (NTimestamp y m d) = False"
| "no_timestamp (NSeq fl ns) = (\<forall>n \<in> set ns. no_timestamp n)"
| "no_timestamp (NMap fl kns) = (\<forall>(k, n) \<in> set kns. no_timestamp n)"
| "no_timestamp n = True"

text \<open>
  What \<^verbatim>\<open>from_yaml\<close> builds from a file that \<^verbatim>\<open>to_yaml\<close> wrote: every dictionary
  comes back in the order of its keys, and a value of \<^verbatim>\<open>extra\<close> comes back as the
  constructor reads its JSON form.
\<close>

definition reload_value :: "pyval \<Rightarrow> pyval" where
  "reload_value v = build (represent False (to_jsonable v))"


definition reload_service :: "ServiceConfig \<Rightarrow> ServiceConfig" where
  "reload_service s =
     s\<lparr>environment := sort_key fst (environment s),
       extra := map (\<lambda>(k, v). (k, reload_value v)) (sort_key fst (extra s))\<rparr>"

definition reload_application :: "ApplicationConfig \<Rightarrow> ApplicationConfig" where
  "reload_application a =
     a\<lparr>app_environment := sort_key fst (app_environment a),
       dependencies := map (\<lambda>(k, s). (k, reload_service s)) (sort_key fst (dependencies a))\<rparr>"

definition reload_config :: "DockLiftConfig \<Rightarrow> DockLiftConfig" where
  "reload_config c = c\<lparr>application := reload_application (application c)\<rparr>"

text \<open>
  A document whose service has a date in \<^verbatim>\<open>extra\<close>, the configuration constructed
  from it (\<open>dated_cfg (PDate 2020 1 1)\<close>), and the filesystem after that
  configuration is saved.
\<close>

definition dated_kwargs :: pydict where
  "dated_kwargs =
     [(''vps'', PDict (demo_vps ''~/.ssh/id_rsa'')),
      (''application'', PDict (demo_app @
         [(''dependencies'', PDict [(''db'', PDict [(''extra'',
             PDict [(''since'', PDate 2020 1 1)])])])]))]"


definition dated_service :: "pyval \<Rightarrow> ServiceConfig" where
  "dated_service v =
     \<lparr>svc_image = None, environment = [], volumes = [], ports = [], depends_on = [],
      extra = [(''since'', v)]\<rparr>"

definition dated_cfg :: "pyval \<Rightarrow> DockLiftConfig" where
  "dated_cfg v =
     \<lparr>vps = \<lparr>host = ''1.2.3.4'', user = ''deploy'', ssh_key_path = ''/home/deploy/.ssh/id_rsa'',
              port = 22, email = None\<rparr>,
      application = \<lparr>name = ''blog'', domain = ''blog.example.com'', dockerfile = ''./Dockerfile'',
                      build_context = ''.'', app_port = None, app_environment = [],
                      dependencies = [(''db'', dated_service v)]\<rparr>\<rparr>"

definition saved_fs :: filesystem where
  "saved_fs = doc_fs\<lparr>files := (files doc_fs)([''srv'', ''app'', ''saved.yml'']
     \<mapsto> yaml_dump (model_dump (dated_cfg (PDate 2020 1 1))) False)\<rparr>"

section \<open>Properties\<close>

subsection \<open>Validation results\<close>

lemma ap_res_Valid: "ap_res f r = Valid y \<longleftrightarrow> (\<exists>g x. f = Valid g \<and> r = Valid x \<and> y = g x)"
  by (cases f; cases r) auto

lemma at_loc_Valid: "at_loc l r = Valid x \<longleftrightarrow> r = Valid x"
  by (cases r) auto

lemma raises_at_loc: "raises (at_loc l r) = raises r"
  by (cases r) (auto simp: raises_def)

lemma raises_ap_res: "raises (ap_res f r) \<longleftrightarrow> raises f \<or> raises r"
  by (cases f; cases r) (auto simp: raises_def)

lemma raises_simps: "raises (Valid x) = False" "raises (Invalid es) = False" "raises (Raise e) = True"
  by (auto simp: raises_def)

lemma required_Valid:
  "required d k f = Valid x \<longleftrightarrow> (\<exists>v. map_of d k = Some v \<and> f v = Valid x)"
  by (auto simp: required_def at_loc_Valid split: option.splits)

lemma with_default_Valid:
  "with_default d k dflt f = Valid x \<longleftrightarrow>
     (case map_of d k of None \<Rightarrow> x = dflt | Some v \<Rightarrow> f v = Valid x)"
  by (auto simp: with_default_def at_loc_Valid split: option.splits)

lemma raises_required: "raises (required d k f) \<longleftrightarrow> (\<exists>v. map_of d k = Some v \<and> raises (f v))"
  by (auto simp: required_def raises_at_loc raises_simps split: option.splits)

lemma raises_with_default:
  "raises (with_default d k dflt f) \<longleftrightarrow> (\<exists>v. map_of d k = Some v \<and> raises (f v))"
  by (auto simp: with_default_def raises_at_loc raises_simps split: option.splits)

lemma validate_str_Valid: "validate_str v = Valid s \<longleftrightarrow> v = PStr s"
  by (cases v) (auto simp: validate_str_def)

lemma raises_validate_str: "\<not> raises (validate_str v)"
  by (cases v) (auto simp: validate_str_def raises_simps)

lemma raises_validate_int: "\<not> raises (validate_int sai v)"
  by (cases v) (auto simp: validate_int_def raises_simps split: option.splits)

lemma raises_validate_nullable: "raises (validate_nullable f v) \<longleftrightarrow> v \<noteq> PNone \<and> raises (f v)"
  by (cases v) (auto simp: validate_nullable_def raises_simps raises_ap_res)

lemma after_validator_Valid:
  "after_validator f g v = Valid y \<longleftrightarrow> (\<exists>x. f v = Valid x \<and> g x = Inr y)"
  by (auto simp: after_validator_def split: res.splits sum.splits error.splits)

lemma validate_nullable_Valid:
  "validate_nullable f v = Valid y \<longleftrightarrow> (v = PNone \<and> y = None) \<or> (v \<noteq> PNone \<and> (\<exists>x. f v = Valid x \<and> y = Some x))"
  by (cases v) (auto simp: validate_nullable_def ap_res_Valid)

lemma ap_res_lines:
  "\<not> raises (ap_res f r) \<Longrightarrow> lines (ap_res f r) = lines f \<union> lines r"
  by (cases f; cases r) (auto simp: lines_def raises_def)

lemma ap_res_Invalid_iff:
  "(\<exists>es. ap_res f r = Invalid es) \<longleftrightarrow> \<not> raises f \<and> \<not> raises r \<and> ((\<exists>es. f = Invalid es) \<or> (\<exists>es. r = Invalid es))"
  by (cases f; cases r) (auto simp: raises_def)

lemma VPSConfig_validate_Valid:
  "VPSConfig_validate sai fs d = Valid c \<longleftrightarrow>
     (\<exists>h u k. map_of d ''host'' = Some (PStr h) \<and> map_of d ''user'' = Some (PStr u)
        \<and> map_of d ''ssh_key_path'' = Some (PStr k)
        \<and> validate_ssh_key_path fs k = Inr (ssh_key_path c)
        \<and> host c = h \<and> user c = u
        \<and> with_default d ''port'' 22 (validate_int sai) = Valid (port c)
        \<and> with_default d ''email'' None (validate_nullable validate_str) = Valid (email c))"
  unfolding VPSConfig_validate_def
  apply (simp add: ap_res_Valid required_Valid after_validator_Valid validate_str_Valid)
  apply (cases c)
  apply auto
  done

lemmas path_defs = Path_def splitroot_def str_path_def expands_def expanduser_def
  os_path_expanduser_def rstrip_sep_def exists_path_def is_dir_def os_stat_def ignore_error_def
  resolve_def dir_at_def file_at_def step_def parent_def
  is_absolute_def os_path_isabs_def

lemmas model_defs = VPSConfig_validate_def required_def with_default_def after_validator_def
  validate_str_def validate_int_def validate_nullable_def validate_ssh_key_path_def init_def

lemma raises_VPS_fields:
  "\<not> raises (required d ''host'' validate_str)"
  "\<not> raises (required d ''user'' validate_str)"
  "\<not> raises (with_default d ''port'' 22 (validate_int sai))"
  "\<not> raises (with_default d ''email'' None (validate_nullable validate_str))"
  by (auto simp: raises_required raises_with_default raises_validate_str raises_validate_int
      raises_validate_nullable)

lemma VPSConfig_validate_key_invalid:
  assumes "required d ''ssh_key_path'' (after_validator validate_str (validate_ssh_key_path fs)) = Invalid es"
  shows "\<exists>es'. VPSConfig_validate sai fs d = Invalid es' \<and> set es \<subseteq> set es'"
proof -
  let ?r = "VPSConfig_validate sai fs d"
  have nr: "\<not> raises ?r"
    unfolding VPSConfig_validate_def
    by (simp add: raises_ap_res raises_VPS_fields raises_simps assms)
  have "lines ?r \<supseteq> set es"
    unfolding VPSConfig_validate_def
    using nr[unfolded VPSConfig_validate_def]
    by (simp add: ap_res_lines raises_ap_res) (auto simp: lines_def assms)
  moreover from this nr have "es \<noteq> [] \<Longrightarrow> \<exists>es'. ?r = Invalid es'"
    by (cases ?r) (auto simp: lines_def raises_def)
  moreover have "es = [] \<Longrightarrow> \<exists>es'. ?r = Invalid es'"
    unfolding VPSConfig_validate_def using assms
    by (auto simp: ap_res_Invalid_iff raises_ap_res raises_VPS_fields raises_simps)
  ultimately show ?thesis
    by (cases ?r) (auto simp: lines_def)
qed

subsection \<open>Parsed paths\<close>

lemma split_sep_nonempty: "split_sep c s \<noteq> []"
  by (induction s) (auto split: list.splits)

lemma split_sep_no_sep: "x \<in> set (split_sep c s) \<Longrightarrow> c \<notin> set x"
proof (induction s arbitrary: x)
  case Nil
  then show ?case by simp
next
  case (Cons a s)
  then show ?case
    by (cases "split_sep c s") (auto split: if_splits)
qed

lemma root_Path: "root (Path v) = (if os_path_isabs v then (if length v - length (dropWhile (\<lambda>c. c = CHR ''/'') v) = 2 then ''//'' else ''/'') else [])"
  by (cases v) (auto simp: Path_def splitroot_def os_path_isabs_def Let_def)

lemma wf_path_Path: "wf_path (Path v)"
  unfolding wf_path_def
proof
  show "root (Path v) \<in> {[], ''/'', ''//''}"
    by (simp add: root_Path)
  show "\<forall>x\<in>set (parts (Path v)). x \<noteq> [] \<and> CHR ''/'' \<notin> set x"
    by (auto simp: Path_def split: prod.splits dest: split_sep_no_sep)
qed

lemma is_absolute_Path: "is_absolute (Path v) \<longleftrightarrow> os_path_isabs v"
  by (simp add: is_absolute_def root_Path)

lemma join_sep_Cons: "join_sep c (x # xs) = x @ (if xs = [] then [] else c # join_sep c xs)"
  by (cases xs) auto

lemma take1_str_path:
  assumes "wf_path p"
  shows "take (Suc 0) (str_path p) = (if root p \<noteq> [] then ''/'' else if parts p = [] then ''.'' else take (Suc 0) (hd (parts p)))"
proof (cases "parts p")
  case Nil
  with assms show ?thesis by (auto simp: wf_path_def str_path_def)
next
  case (Cons x xs)
  with assms have "x \<noteq> []" by (auto simp: wf_path_def)
  with Cons assms show ?thesis
    by (cases x) (auto simp: wf_path_def str_path_def join_sep_Cons)
qed

lemma isabs_str_path:
  assumes "wf_path p"
  shows "os_path_isabs (str_path p) \<longleftrightarrow> is_absolute p"
proof (cases "parts p")
  case Nil
  with assms show ?thesis
    by (auto simp: os_path_isabs_def take1_str_path is_absolute_def)
next
  case (Cons x xs)
  with assms have "x \<noteq> []" "CHR ''/'' \<notin> set x" by (auto simp: wf_path_def)
  then have "take 1 x \<noteq> ''/''" by (cases x) auto
  with Cons assms show ?thesis
    by (auto simp: os_path_isabs_def take1_str_path is_absolute_def)
qed

lemma wf_path_expanduser:
  assumes "wf_path q" "expanduser fs q = Inr p"
  shows "wf_path p"
proof (cases "expands q")
  case False
  with assms show ?thesis by (simp add: expanduser_def)
next
  case True
  let ?h = "Path (os_path_expanduser fs (hd (parts q)))"
  from True assms have p: "p = ?h\<lparr>parts := parts ?h @ tl (parts q)\<rparr>"
    by (auto simp: expanduser_def Let_def split: if_splits)
  from True have "parts q \<noteq> []" by (simp add: expands_def)
  then have "set (tl (parts q)) \<subseteq> set (parts q)"
    by (cases "parts q") auto
  with assms(1) wf_path_Path[of "os_path_expanduser fs (hd (parts q))"] show ?thesis
    unfolding p wf_path_def by auto
qed

lemma expanduser_rooted: "\<not> expands q \<Longrightarrow> expanduser fs q = Inr q"
  by (simp add: expanduser_def)

lemma not_expands_absolute: "is_absolute q \<Longrightarrow> \<not> expands q"
  by (simp add: is_absolute_def expands_def)

lemma normal_not_expands:
  assumes "take 1 v \<noteq> ''~''" and "str_path (Path v) = v"
  shows "\<not> expands (Path v)"
proof
  assume e: "expands (Path v)"
  then have "take 1 (str_path (Path v)) = ''~''"
    by (simp add: take1_str_path[OF wf_path_Path] expands_def)
  with assms show False by simp
qed

lemma init_Inr: "init r = Inr c \<longleftrightarrow> r = Valid c"
  by (cases r) (auto simp: init_def)

lemma validate_ssh_key_path_Inr:
  "validate_ssh_key_path fs v = Inr s \<longleftrightarrow>
     (\<exists>p. expanduser fs (Path v) = Inr p \<and> exists_path fs p = Inr True \<and> s = str_path p)"
  by (auto simp: validate_ssh_key_path_def split: sum.splits)

text \<open>
  C6 (as amended).  The key path stored in a constructed \<^verbatim>\<open>VPSConfig\<close> is
  \<^verbatim>\<open>str(Path(v).expanduser())\<close> for the string \<open>v\<close> that was given, and that expanded
  path existed on the filesystem when the validator ran.  The stored path is absolute
  exactly when the expanded path has a root, which it has whenever \<open>v\<close> is absolute.
\<close>

theorem VPSConfig_ssh_key_path_invariant:
  assumes "init (VPSConfig_validate sai fs d) = Inr c"
  shows "\<exists>v p. map_of d ''ssh_key_path'' = Some (PStr v)
           \<and> expanduser fs (Path v) = Inr p \<and> exists_path fs p = Inr True
           \<and> ssh_key_path c = str_path p
           \<and> (os_path_isabs (ssh_key_path c) \<longleftrightarrow> is_absolute p)
           \<and> (os_path_isabs v \<longrightarrow> is_absolute p)"
proof -
  from assms obtain v where v: "map_of d ''ssh_key_path'' = Some (PStr v)"
    and k: "validate_ssh_key_path fs v = Inr (ssh_key_path c)"
    by (auto simp: init_Inr VPSConfig_validate_Valid)
  from k obtain p where p: "expanduser fs (Path v) = Inr p" "exists_path fs p = Inr True"
    "ssh_key_path c = str_path p"
    by (auto simp: validate_ssh_key_path_Inr)
  have wf: "wf_path p"
    using wf_path_expanduser[OF wf_path_Path p(1)] .
  have "os_path_isabs (ssh_key_path c) \<longleftrightarrow> is_absolute p"
    by (simp add: p(3) isabs_str_path[OF wf])
  moreover have "is_absolute p" if "os_path_isabs v"
  proof -
    from that have a: "is_absolute (Path v)" by (simp add: is_absolute_Path)
    with p(1) have "p = Path v"
      by (simp add: expanduser_rooted[OF not_expands_absolute])
    with a show ?thesis by simp
  qed
  ultimately show ?thesis using v p by blast
qed

theorem VPSConfig_ssh_key_path_invariant_witness:
  "\<exists>v p. map_of (demo_vps ''~/.ssh/id_rsa'') ''ssh_key_path'' = Some (PStr v)
           \<and> expanduser demo_fs (Path v) = Inr p \<and> exists_path demo_fs p = Inr True
           \<and> ''/home/deploy/.ssh/id_rsa'' = str_path p
           \<and> is_absolute p"
proof -
  have "init (VPSConfig_validate no_str_as_int demo_fs (demo_vps ''~/.ssh/id_rsa''))
       = Inr \<lparr>host = ''1.2.3.4'', user = ''deploy'', ssh_key_path = ''/home/deploy/.ssh/id_rsa'',
              port = 22, email = None\<rparr>"
    by (simp add: demo_fs_def demo_vps_def path_defs model_defs)
  from VPSConfig_ssh_key_path_invariant[OF this] show ?thesis
    by (simp add: os_path_isabs_def) blast
qed

text \<open>
  C6 as stated fails for a relative input: \<^verbatim>\<open>expanduser\<close> does not make a path
  absolute, so the key \<^verbatim>\<open>id_rsa\<close> in the current directory is stored as \<^verbatim>\<open>id_rsa\<close>.
\<close>

theorem VPSConfig_relative_key_counterexample:
  "init (VPSConfig_validate no_str_as_int demo_fs (demo_vps ''id_rsa''))
     = Inr \<lparr>host = ''1.2.3.4'', user = ''deploy'', ssh_key_path = ''id_rsa'', port = 22, email = None\<rparr>
   \<and> \<not> os_path_isabs ''id_rsa''"
  by (simp add: demo_fs_def demo_vps_def path_defs model_defs)

text \<open>
  C10 (as amended).  Let a \<^verbatim>\<open>VPSConfig\<close> be constructed from the key path \<open>v\<close>.  If
  the parsed path \<^verbatim>\<open>Path(v)\<close> is not subject to expansion (it has a root, or its first
  component does not start with \<^verbatim>\<open>~\<close>), expansion is the identity on it, the path
  exists, and the stored value is \<^verbatim>\<open>str(Path(v))\<close>: \<open>v\<close> without repeated slashes,
  \<^verbatim>\<open>.\<close> components and trailing slash; the stored value is relative exactly when \<open>v\<close>
  is.  If \<open>v\<close> does not begin with \<^verbatim>\<open>~\<close> and is already spelled that way, the stored
  value is \<open>v\<close> unchanged.
\<close>

theorem VPSConfig_ssh_key_path_unexpanded:
  assumes "init (VPSConfig_validate sai fs d) = Inr c"
    and "map_of d ''ssh_key_path'' = Some (PStr v)"
  shows "(\<not> expands (Path v) \<longrightarrow>
            ssh_key_path c = str_path (Path v) \<and> exists_path fs (Path v) = Inr True
            \<and> (os_path_isabs (ssh_key_path c) \<longleftrightarrow> os_path_isabs v))
       \<and> (take 1 v \<noteq> ''~'' \<and> str_path (Path v) = v \<longrightarrow> ssh_key_path c = v)"
proof -
  from assms have k: "validate_ssh_key_path fs v = Inr (ssh_key_path c)"
    by (auto simp: init_Inr VPSConfig_validate_Valid)
  have 1: "ssh_key_path c = str_path (Path v) \<and> exists_path fs (Path v) = Inr True
            \<and> (os_path_isabs (ssh_key_path c) \<longleftrightarrow> os_path_isabs v)" if "\<not> expands (Path v)"
  proof -
    from k that have "ssh_key_path c = str_path (Path v)" "exists_path fs (Path v) = Inr True"
      by (auto simp: validate_ssh_key_path_Inr expanduser_rooted)
    then show ?thesis
      by (simp add: isabs_str_path[OF wf_path_Path] is_absolute_Path)
  qed
  have 2: "ssh_key_path c = v" if "take 1 v \<noteq> ''~'' \<and> str_path (Path v) = v"
    using 1[OF normal_not_expands] that by simp
  from 1 2 show ?thesis by blast
qed

theorem VPSConfig_ssh_key_path_unexpanded_witness:
  "init (VPSConfig_validate no_str_as_int demo_fs (demo_vps ''id_rsa''))
     = Inr \<lparr>host = ''1.2.3.4'', user = ''deploy'', ssh_key_path = ''id_rsa'', port = 22, email = None\<rparr>
   \<and> \<not> expands (Path ''id_rsa'') \<and> take 1 ''id_rsa'' \<noteq> ''~''
   \<and> ''id_rsa'' = str_path (Path ''id_rsa'')
   \<and> exists_path demo_fs (Path ''id_rsa'') = Inr True
   \<and> \<not> os_path_isabs ''id_rsa''"
proof -
  have i: "init (VPSConfig_validate no_str_as_int demo_fs (demo_vps ''id_rsa''))
     = Inr \<lparr>host = ''1.2.3.4'', user = ''deploy'', ssh_key_path = ''id_rsa'', port = 22, email = None\<rparr>"
    by (simp add: demo_fs_def demo_vps_def path_defs model_defs)
  have m: "map_of (demo_vps ''id_rsa'') ''ssh_key_path'' = Some (PStr ''id_rsa'')"
    by (simp add: demo_vps_def)
  have h: "\<not> expands (Path ''id_rsa'')" "take 1 ''id_rsa'' \<noteq> ''~''"
    by (simp_all add: path_defs)
  from VPSConfig_ssh_key_path_unexpanded[OF i m] h
  have "''id_rsa'' = str_path (Path ''id_rsa'') \<and> exists_path demo_fs (Path ''id_rsa'') = Inr True
     \<and> \<not> os_path_isabs ''id_rsa''"
    by (simp add: os_path_isabs_def)
  with i h show ?thesis by blast
qed

text \<open>
  C10 as stated fails for an input that pathlib respells: \<^verbatim>\<open>./id_rsa\<close> does not begin
  with \<^verbatim>\<open>~\<close> and names an existing file, and is stored as \<^verbatim>\<open>id_rsa\<close>.
\<close>

theorem VPSConfig_dot_slash_key_counterexample:
  "take 1 ''./id_rsa'' \<noteq> ''~''
   \<and> exists_path demo_fs (Path ''./id_rsa'') = Inr True
   \<and> init (VPSConfig_validate no_str_as_int demo_fs (demo_vps ''./id_rsa''))
       = Inr \<lparr>host = ''1.2.3.4'', user = ''deploy'', ssh_key_path = ''id_rsa'', port = 22, email = None\<rparr>
   \<and> ''id_rsa'' \<noteq> ''./id_rsa''"
  by (simp add: demo_fs_def demo_vps_def path_defs model_defs)

subsection \<open>The key path of a \<^verbatim>\<open>VPSConfig\<close>\<close>

lemma split_sep_plain: "c \<notin> set s \<Longrightarrow> split_sep c s = [s]"
  by (induction s) auto

lemma Path_long_name: "Path long_name = \<lparr>root = [], parts = [long_name]\<rparr>"
proof -
  have "hd long_name = CHR ''a''"
    by (simp add: long_name_def)
  then have "splitroot long_name = ('''', long_name)"
    by (simp add: splitroot_def)
  moreover have "split_sep CHR ''/'' long_name = [long_name]"
    by (rule split_sep_plain) (simp add: long_name_def)
  moreover have "long_name \<noteq> []" "long_name \<noteq> ''.''"
    by (auto simp: long_name_def dest: arg_cong[where f = length])
  ultimately show ?thesis
    by (simp add: Path_def)
qed

lemma long_name_neq: "long_name \<noteq> ''id_rsa''"
proof
  assume "long_name = ''id_rsa''"
  then have "length long_name = length ''id_rsa''" by (rule arg_cong)
  then show False by (simp add: long_name_def)
qed

lemma nothing_at_long_name:
  "files demo_fs (cwd demo_fs @ [long_name]) = None \<and> \<not> dir_at demo_fs (cwd demo_fs @ [long_name])"
  using long_name_neq by (simp add: demo_fs_def dir_at_def)

lemma str_path_long_name: "str_path \<lparr>root = [], parts = [long_name]\<rparr> = long_name"
  by (auto simp: str_path_def long_name_def dest: arg_cong[where f = length])

lemma not_expands_long_name: "\<not> expands \<lparr>root = [], parts = [long_name]\<rparr>"
  by (simp add: expands_def long_name_def)

lemma exists_path_long_name:
  "exists_path demo_fs \<lparr>root = [], parts = [long_name]\<rparr> = Inl (OSError 36 long_name)"
proof -
  have "resolve demo_fs \<lparr>root = [], parts = [long_name]\<rparr> = ENAMETOOLONG"
    unfolding resolve_def str_path_long_name
    by (simp add: long_name_def dir_at_def demo_fs_def)
  then show ?thesis
    by (simp add: exists_path_def os_stat_def ignore_error_def str_path_long_name)
qed

text \<open>
  The validator reports a key that is not there with a \<^verbatim>\<open>ValueError\<close>, which pydantic
  turns into a line of the \<^verbatim>\<open>ValidationError\<close>, whatever the other arguments are; a key
  that is there is stored as \<^verbatim>\<open>str(p)\<close> for the expanded path \<open>p\<close>.
\<close>

lemma VPSConfig_key_checked:
  assumes "map_of d ''ssh_key_path'' = Some (PStr v)"
    and "expanduser fs (Path v) = Inr p"
  shows "(exists_path fs p = Inr False \<longrightarrow>
            (\<exists>es. init (VPSConfig_validate sai fs d) = Inl (ValidationError es) \<and>
               LineError [Key ''ssh_key_path''] ''value_error''
                 (''Value error, SSH key not found at: '' @ v) \<in> set es))
       \<and> (exists_path fs p = Inr True \<and> map_of d ''host'' = Some (PStr h) \<and> map_of d ''user'' = Some (PStr u)
            \<and> with_default d ''port'' 22 (validate_int sai) = Valid n
            \<and> with_default d ''email'' None (validate_nullable validate_str) = Valid e \<longrightarrow>
            init (VPSConfig_validate sai fs d)
              = Inr \<lparr>host = h, user = u, ssh_key_path = str_path p, port = n, email = e\<rparr>)"
proof (intro conjI impI)
  assume "exists_path fs p = Inr False"
  with assms have "required d ''ssh_key_path'' (after_validator validate_str (validate_ssh_key_path fs))
      = Invalid [LineError [Key ''ssh_key_path''] ''value_error''
                 (''Value error, SSH key not found at: '' @ v)]"
    by (simp add: required_def after_validator_def validate_str_def validate_ssh_key_path_def)
  from VPSConfig_validate_key_invalid[OF this, of sai]
  show "\<exists>es. init (VPSConfig_validate sai fs d) = Inl (ValidationError es) \<and>
               LineError [Key ''ssh_key_path''] ''value_error''
                 (''Value error, SSH key not found at: '' @ v) \<in> set es"
    by (auto simp: init_def)
next
  assume a: "exists_path fs p = Inr True \<and> map_of d ''host'' = Some (PStr h) \<and> map_of d ''user'' = Some (PStr u)
            \<and> with_default d ''port'' 22 (validate_int sai) = Valid n
            \<and> with_default d ''email'' None (validate_nullable validate_str) = Valid e"
  with assms have "VPSConfig_validate sai fs d
      = Valid \<lparr>host = h, user = u, ssh_key_path = str_path p, port = n, email = e\<rparr>"
    by (simp add: VPSConfig_validate_Valid validate_ssh_key_path_def)
  then show "init (VPSConfig_validate sai fs d)
              = Inr \<lparr>host = h, user = u, ssh_key_path = str_path p, port = n, email = e\<rparr>"
    by (simp add: init_def)
qed

text \<open>
  An exception of the validator that is no \<^verbatim>\<open>ValueError\<close> passes through pydantic as it
  is: the whole construction ends with it.
\<close>

lemma VPSConfig_validate_key_raises:
  assumes "map_of d ''ssh_key_path'' = Some (PStr v)"
    and "validate_ssh_key_path fs v = Inl e"
    and "\<forall>m. e \<noteq> ValueError m"
    and "map_of d ''host'' = Some (PStr h)" and "map_of d ''user'' = Some (PStr u)"
  shows "init (VPSConfig_validate sai fs d) = Inl e"
  using assms
  by (cases e) (simp_all add: VPSConfig_validate_def required_def after_validator_def
      validate_str_def init_def)

text \<open>
  C2.  The claim is what the validator is written for, and the validator misses it where
  the existence of the key cannot be tested.  With \<^verbatim>\<open>ssh_key_path="/nonexistent/key"\<close>
  the construction fails with the \<^verbatim>\<open>ValidationError\<close> of the claim: the validator
  raised \<^verbatim>\<open>ValueError\<close>.  With \<^verbatim>\<open>ssh_key_path="~ghost/key"\<close> on a machine that has no
  user \<^verbatim>\<open>ghost\<close>, \<^verbatim>\<open>Path.expanduser\<close> raises \<^verbatim>\<open>RuntimeError\<close> inside the validator,
  and with a key whose name has 300 characters \<^verbatim>\<open>Path.exists\<close> raises \<^verbatim>\<open>OSError\<close>
  (\<^verbatim>\<open>ENAMETOOLONG\<close>); neither key exists, and neither exception is a \<^verbatim>\<open>ValueError\<close>,
  so the construction ends with it and not with a \<^verbatim>\<open>ValidationError\<close>.
\<close>

theorem VPSConfig_missing_key_escapes:
  "init (VPSConfig_validate no_str_as_int demo_fs (demo_vps ''/nonexistent/key''))
     = Inl (ValidationError [LineError [Key ''ssh_key_path''] ''value_error''
                               ''Value error, SSH key not found at: /nonexistent/key''])
   \<and> homes demo_fs ''ghost'' = None
   \<and> init (VPSConfig_validate no_str_as_int demo_fs (demo_vps ''~ghost/key''))
       = Inl (RuntimeError ''Could not determine home directory.'')
   \<and> files demo_fs (cwd demo_fs @ [long_name]) = None
   \<and> \<not> dir_at demo_fs (cwd demo_fs @ [long_name])
   \<and> init (VPSConfig_validate no_str_as_int demo_fs (demo_vps long_name))
       = Inl (OSError 36 long_name)"
proof -
  have 1: "init (VPSConfig_validate no_str_as_int demo_fs (demo_vps ''/nonexistent/key''))
     = Inl (ValidationError [LineError [Key ''ssh_key_path''] ''value_error''
                               ''Value error, SSH key not found at: /nonexistent/key''])"
    by (simp add: demo_fs_def demo_vps_def path_defs model_defs)
  have 2: "homes demo_fs ''ghost'' = None
   \<and> init (VPSConfig_validate no_str_as_int demo_fs (demo_vps ''~ghost/key''))
       = Inl (RuntimeError ''Could not determine home directory.'')"
    by (simp add: demo_fs_def demo_vps_def path_defs model_defs)
  note 3 = nothing_at_long_name
  have "validate_ssh_key_path demo_fs long_name = Inl (OSError 36 long_name)"
    by (simp add: validate_ssh_key_path_def Path_long_name expanduser_rooted[OF not_expands_long_name]
        exists_path_long_name)
  then have 4: "init (VPSConfig_validate no_str_as_int demo_fs (demo_vps long_name))
       = Inl (OSError 36 long_name)"
    by (intro VPSConfig_validate_key_raises[where v = long_name and h = "''1.2.3.4''" and u = "''deploy''"])
      (simp_all add: demo_vps_def)
  from 1 2 3 4 show ?thesis by blast
qed

subsection \<open>Loading\<close>

lemma exists_path_False:
  "exists_path fs p = Inr False
     \<longleftrightarrow> resolve fs p \<noteq> ENAMETOOLONG \<and> \<not> directory fs p \<and> \<not> regular_file fs p"
  by (auto simp: exists_path_def os_stat_def ignore_error_def directory_def regular_file_def
      file_at_def split: lookup.splits)

lemma exists_path_True:
  "exists_path fs p = Inr True \<longleftrightarrow> directory fs p \<or> regular_file fs p"
  by (auto simp: exists_path_def os_stat_def ignore_error_def directory_def regular_file_def
      file_at_def split: lookup.splits)

lemma exists_path_Inl:
  "exists_path fs p = Inl e \<longleftrightarrow> resolve fs p = ENAMETOOLONG \<and> e = OSError 36 (str_path p)"
  by (auto simp: exists_path_def os_stat_def ignore_error_def split: lookup.splits)

text \<open>
  C3 (as amended).  Whenever \<^verbatim>\<open>Path(path).exists()\<close> returns \<open>False\<close>,
  \<^verbatim>\<open>from_yaml\<close> raises \<^verbatim>\<open>FileNotFoundError\<close> with the message that ends with the path
  as it was given; this is the explicit check, nothing of the file is opened or parsed.
  \<^verbatim>\<open>exists\<close> returns \<open>False\<close> exactly when the lookup of the path is not refused with
  \<^verbatim>\<open>ENAMETOOLONG\<close> and ends at neither a directory nor a regular file.
\<close>

theorem from_yaml_missing_file:
  "(exists_path fs (Path path) = Inr False \<longrightarrow>
      from_yaml sai fs path = Inl (FileNotFoundError (''Configuration file not found: '' @ path)))
   \<and> (exists_path fs (Path path) = Inr False
        \<longleftrightarrow> resolve fs (Path path) \<noteq> ENAMETOOLONG
            \<and> \<not> directory fs (Path path) \<and> \<not> regular_file fs (Path path))"
proof (intro conjI impI)
  assume "exists_path fs (Path path) = Inr False"
  then show "from_yaml sai fs path = Inl (FileNotFoundError (''Configuration file not found: '' @ path))"
    by (simp add: from_yaml_def)
next
  show "exists_path fs (Path path) = Inr False
        \<longleftrightarrow> resolve fs (Path path) \<noteq> ENAMETOOLONG
            \<and> \<not> directory fs (Path path) \<and> \<not> regular_file fs (Path path)"
    by (rule exists_path_False)
qed

theorem from_yaml_missing_file_witness:
  "exists_path demo_fs (Path ''docklift.yml'') = Inr False
   \<and> from_yaml no_str_as_int demo_fs ''docklift.yml''
       = Inl (FileNotFoundError ''Configuration file not found: docklift.yml'')
   \<and> resolve demo_fs (Path ''docklift.yml'') = Found [''srv'', ''app'', ''docklift.yml'']"
proof -
  have e: "exists_path demo_fs (Path ''docklift.yml'') = Inr False"
    and r: "resolve demo_fs (Path ''docklift.yml'') = Found [''srv'', ''app'', ''docklift.yml'']"
    by (simp_all add: demo_fs_def path_defs)
  from from_yaml_missing_file[of demo_fs "''docklift.yml''" no_str_as_int] e
  have "from_yaml no_str_as_int demo_fs ''docklift.yml''
       = Inl (FileNotFoundError ''Configuration file not found: docklift.yml'')"
    by simp
  with e r show ?thesis by blast
qed

text \<open>
  C3 as stated fails for a path that the operating system refuses to look up: nothing
  exists under a name of 300 characters, and \<^verbatim>\<open>from_yaml\<close> ends with the
  \<^verbatim>\<open>OSError\<close> of \<^verbatim>\<open>Path.exists\<close>, not with \<^verbatim>\<open>FileNotFoundError\<close>.
\<close>

theorem from_yaml_long_name_counterexample:
  "files demo_fs (cwd demo_fs @ [long_name]) = None
   \<and> \<not> dir_at demo_fs (cwd demo_fs @ [long_name])
   \<and> from_yaml no_str_as_int demo_fs long_name = Inl (OSError 36 long_name)"
proof -
  note nothing_at_long_name
  moreover have "from_yaml no_str_as_int demo_fs long_name = Inl (OSError 36 long_name)"
    by (simp add: from_yaml_def Path_long_name exists_path_long_name)
  ultimately show ?thesis by blast
qed

subsection \<open>Lists and dictionaries\<close>

lemma list_items_Valid:
  "list_items f i xs = Valid ys \<longleftrightarrow> list_all2 (\<lambda>x y. f x = Valid y) xs ys"
proof (induction xs arbitrary: i ys)
  case Nil
  then show ?case by auto
next
  case (Cons x xs)
  show ?case
    by (cases ys) (auto simp: ap_res_Valid at_loc_Valid Cons.IH)
qed

lemma dict_items_Valid:
  "dict_items f kvs = Valid kws \<longleftrightarrow>
     list_all2 (\<lambda>kv kw. fst kv = fst kw \<and> f (snd kv) = Valid (snd kw)) kvs kws"
proof (induction kvs arbitrary: kws)
  case Nil
  then show ?case by auto
next
  case (Cons kv kvs)
  obtain k x where kv: "kv = (k, x)" by (cases kv)
  show ?case
    unfolding kv by (cases kws) (auto simp: ap_res_Valid at_loc_Valid Cons.IH)
qed

lemma raises_list_items:
  "raises (list_items f i xs) \<longleftrightarrow> (\<exists>x \<in> set xs. raises (f x))"
  by (induction xs arbitrary: i) (auto simp: raises_ap_res raises_at_loc raises_simps)

lemma raises_dict_items:
  "raises (dict_items f kvs) \<longleftrightarrow> (\<exists>kv \<in> set kvs. raises (f (snd kv)))"
  by (induction f kvs rule: dict_items.induct) (auto simp: raises_ap_res raises_at_loc raises_simps)

lemma list_items_str: "list_items validate_str i xs = Valid ys \<longleftrightarrow> xs = map PStr ys"
  by (auto simp: list_items_Valid validate_str_Valid list_all2_conv_all_nth list_eq_iff_nth_eq)

lemma validate_list_str: "validate_list validate_str v = Valid ys \<longleftrightarrow> v = PList (map PStr ys)"
  by (cases v) (auto simp: validate_list_def list_items_str)

lemma dict_items_str:
  "dict_items validate_str kvs = Valid kws \<longleftrightarrow> kvs = map (\<lambda>(k, s). (k, PStr s)) kws"
  by (auto simp: dict_items_Valid validate_str_Valid list_all2_conv_all_nth list_eq_iff_nth_eq
      split_beta prod_eq_iff)

lemma validate_dict_str:
  "validate_dict validate_str v = Valid kws \<longleftrightarrow> v = PDict (map (\<lambda>(k, s). (k, PStr s)) kws)"
  by (cases v) (auto simp: validate_dict_def dict_items_str)

lemma dict_items_any: "dict_items validate_any kvs = Valid kws \<longleftrightarrow> kvs = kws"
  by (auto simp: dict_items_Valid validate_any_def list_all2_conv_all_nth list_eq_iff_nth_eq
      prod_eq_iff)

lemma validate_dict_any: "validate_dict validate_any v = Valid kws \<longleftrightarrow> v = PDict kws"
  by (cases v) (auto simp: validate_dict_def dict_items_any)

lemma raises_validate_list_str: "\<not> raises (validate_list validate_str v)"
  by (cases v) (auto simp: validate_list_def raises_list_items raises_validate_str raises_simps)

lemma raises_validate_dict_str: "\<not> raises (validate_dict validate_str v)"
  by (cases v) (auto simp: validate_dict_def raises_dict_items raises_validate_str raises_simps)

lemma raises_validate_dict_any: "\<not> raises (validate_dict validate_any v)"
  by (cases v) (auto simp: validate_dict_def raises_dict_items validate_any_def raises_simps)

lemma ServiceConfig_validate_Valid:
  "ServiceConfig_validate d = Valid s \<longleftrightarrow>
     with_default d ''image'' None (validate_nullable validate_str) = Valid (svc_image s)
     \<and> with_default d ''environment'' [] (validate_dict validate_str) = Valid (environment s)
     \<and> with_default d ''volumes'' [] (validate_list validate_str) = Valid (volumes s)
     \<and> with_default d ''ports'' [] (validate_list validate_str) = Valid (ports s)
     \<and> with_default d ''depends_on'' [] (validate_list validate_str) = Valid (depends_on s)
     \<and> with_default d ''extra'' [] (validate_dict validate_any) = Valid (extra s)"
  unfolding ServiceConfig_validate_def
  by (cases s) (auto simp: ap_res_Valid)

lemma raises_ServiceConfig_validate: "\<not> raises (ServiceConfig_validate d)"
  unfolding ServiceConfig_validate_def
  by (simp add: raises_ap_res raises_with_default raises_validate_nullable raises_validate_str
      raises_validate_list_str raises_validate_dict_str raises_validate_dict_any raises_simps)

lemma ApplicationConfig_validate_Valid:
  "ApplicationConfig_validate sai d = Valid a \<longleftrightarrow>
     map_of d ''name'' = Some (PStr (name a))
     \<and> map_of d ''domain'' = Some (PStr (domain a))
     \<and> with_default d ''dockerfile'' ''./Dockerfile'' validate_str = Valid (dockerfile a)
     \<and> with_default d ''context'' ''.'' validate_str = Valid (build_context a)
     \<and> with_default d ''port'' None (validate_nullable (validate_int sai)) = Valid (app_port a)
     \<and> with_default d ''environment'' [] (validate_dict validate_str) = Valid (app_environment a)
     \<and> with_default d ''dependencies'' []
          (validate_dict (validate_model ''ServiceConfig'' ServiceConfig_validate)) = Valid (dependencies a)"
  unfolding ApplicationConfig_validate_def
  by (cases a) (auto simp: ap_res_Valid required_Valid validate_str_Valid)

lemma validate_model_Valid:
  "validate_model n f v = Valid x \<longleftrightarrow> (\<exists>kvs. v = PDict kvs \<and> f kvs = Valid x)"
  by (cases v) (auto simp: validate_model_def)

lemma DockLiftConfig_validate_Valid:
  "DockLiftConfig_validate sai fs d = Valid c \<longleftrightarrow>
     (\<exists>dv da. map_of d ''vps'' = Some (PDict dv) \<and> map_of d ''application'' = Some (PDict da)
        \<and> VPSConfig_validate sai fs dv = Valid (vps c)
        \<and> ApplicationConfig_validate sai da = Valid (application c))"
  unfolding DockLiftConfig_validate_def
  by (cases c) (auto simp: ap_res_Valid required_Valid validate_model_Valid)

subsection \<open>Defaults\<close>

lemma is_str_iff: "is_str v \<longleftrightarrow> (\<exists>s. v = PStr s)"
  by (cases v) (auto simp: is_str_def)

lemma is_str_list_iff: "is_str_list v \<longleftrightarrow> (\<exists>ys. v = PList (map PStr ys))"
proof
  assume "is_str_list v"
  then obtain xs where v: "v = PList xs" and a: "\<forall>x \<in> set xs. \<exists>s. x = PStr s"
    by (cases v) (auto simp: is_str_list_def list_all_iff is_str_iff)
  from a have "\<exists>ys. xs = map PStr ys"
  proof (induction xs)
    case Nil
    then show ?case by simp
  next
    case (Cons x xs)
    then obtain s ys where "x = PStr s" "xs = map PStr ys" by auto
    then show ?case by (intro exI[of _ "s # ys"]) simp
  qed
  with v show "\<exists>ys. v = PList (map PStr ys)" by auto
next
  assume "\<exists>ys. v = PList (map PStr ys)"
  then show "is_str_list v"
    by (auto simp: is_str_list_def list_all_iff is_str_def)
qed

lemma is_str_dict_iff: "is_str_dict v \<longleftrightarrow> (\<exists>kws. v = PDict (map (\<lambda>(k, s). (k, PStr s)) kws))"
proof
  assume "is_str_dict v"
  then obtain kvs where v: "v = PDict kvs" and a: "\<forall>kv \<in> set kvs. \<exists>s. snd kv = PStr s"
    by (cases v) (auto simp: is_str_dict_def list_all_iff is_str_iff)
  from a have "\<exists>kws. kvs = map (\<lambda>(k, s). (k, PStr s)) kws"
  proof (induction kvs)
    case Nil
    then show ?case by simp
  next
    case (Cons kv kvs)
    then obtain s kws where "snd kv = PStr s" "kvs = map (\<lambda>(k, s). (k, PStr s)) kws" by auto
    then show ?case by (intro exI[of _ "(fst kv, s) # kws"]) (cases kv, simp)
  qed
  with v show "\<exists>kws. v = PDict (map (\<lambda>(k, s). (k, PStr s)) kws)" by auto
next
  assume "\<exists>kws. v = PDict (map (\<lambda>(k, s). (k, PStr s)) kws)"
  then show "is_str_dict v"
    by (auto simp: is_str_dict_def list_all_iff is_str_def)
qed

lemma is_dict_iff: "is_dict v \<longleftrightarrow> (\<exists>kvs. v = PDict kvs)"
  by (cases v) (auto simp: is_dict_def)

lemma with_default_ex_Valid:
  "(\<exists>x. with_default d k dflt f = Valid x) \<longleftrightarrow> (\<forall>v. map_of d k = Some v \<longrightarrow> (\<exists>x. f v = Valid x))"
  by (cases "map_of d k") (auto simp: with_default_Valid)

lemma nullable_str_ex_Valid:
  "(\<exists>x. validate_nullable validate_str v = Valid x) \<longleftrightarrow> v = PNone \<or> is_str v"
  by (auto simp: validate_nullable_Valid validate_str_Valid is_str_iff)

lemma ServiceConfig_validate_ex_Valid:
  "(\<exists>s. ServiceConfig_validate d = Valid s) \<longleftrightarrow>
     (\<exists>i. with_default d ''image'' None (validate_nullable validate_str) = Valid i)
     \<and> (\<exists>e. with_default d ''environment'' [] (validate_dict validate_str) = Valid e)
     \<and> (\<exists>v. with_default d ''volumes'' [] (validate_list validate_str) = Valid v)
     \<and> (\<exists>p. with_default d ''ports'' [] (validate_list validate_str) = Valid p)
     \<and> (\<exists>dp. with_default d ''depends_on'' [] (validate_list validate_str) = Valid dp)
     \<and> (\<exists>x. with_default d ''extra'' [] (validate_dict validate_any) = Valid x)"
  unfolding ServiceConfig_validate_def
  by (simp add: ap_res_Valid) blast

lemma all_well_shaped:
  "(\<forall>k v. map_of d k = Some v \<longrightarrow> well_shaped k v) \<longleftrightarrow>
     (\<forall>v. map_of d ''image'' = Some v \<longrightarrow> v = PNone \<or> is_str v)
     \<and> (\<forall>v. map_of d ''environment'' = Some v \<longrightarrow> is_str_dict v)
     \<and> (\<forall>v. map_of d ''volumes'' = Some v \<longrightarrow> is_str_list v)
     \<and> (\<forall>v. map_of d ''ports'' = Some v \<longrightarrow> is_str_list v)
     \<and> (\<forall>v. map_of d ''depends_on'' = Some v \<longrightarrow> is_str_list v)
     \<and> (\<forall>v. map_of d ''extra'' = Some v \<longrightarrow> is_dict v)"
  (is "?L \<longleftrightarrow> ?R")
proof
  assume l: ?L
  show ?R
    by (intro conjI allI impI) (use l in \<open>auto simp: well_shaped_def dest!: spec2\<close>)
next
  assume ?R
  then show ?L
    by (auto simp: well_shaped_def)
qed

text \<open>
  C7.  Constructing a \<^verbatim>\<open>ServiceConfig\<close> never raises; it succeeds exactly when every
  field that is present has the shape of its type, so a missing field is never the
  cause of a failure; and every field that is absent takes its default: \<^verbatim>\<open>None\<close> for
  \<^verbatim>\<open>image\<close>, the empty mapping for \<^verbatim>\<open>environment\<close> and \<^verbatim>\<open>extra\<close>, the empty
  sequence for \<^verbatim>\<open>volumes\<close>, \<^verbatim>\<open>ports\<close> and \<^verbatim>\<open>depends_on\<close>.
\<close>

theorem ServiceConfig_construction:
  "\<not> raises (ServiceConfig_validate d)
   \<and> ((\<exists>s. ServiceConfig_validate d = Valid s) \<longleftrightarrow> (\<forall>k v. map_of d k = Some v \<longrightarrow> well_shaped k v))
   \<and> (ServiceConfig_validate d = Valid s \<longrightarrow>
        (map_of d ''image'' = None \<longrightarrow> svc_image s = None)
      \<and> (map_of d ''environment'' = None \<longrightarrow> environment s = [])
      \<and> (map_of d ''volumes'' = None \<longrightarrow> volumes s = [])
      \<and> (map_of d ''ports'' = None \<longrightarrow> ports s = [])
      \<and> (map_of d ''depends_on'' = None \<longrightarrow> depends_on s = [])
      \<and> (map_of d ''extra'' = None \<longrightarrow> extra s = []))"
proof (intro conjI)
  show "\<not> raises (ServiceConfig_validate d)"
    by (rule raises_ServiceConfig_validate)
  show "(\<exists>s. ServiceConfig_validate d = Valid s) \<longleftrightarrow> (\<forall>k v. map_of d k = Some v \<longrightarrow> well_shaped k v)"
    unfolding ServiceConfig_validate_ex_Valid all_well_shaped with_default_ex_Valid
      nullable_str_ex_Valid
    by (simp add: validate_dict_str validate_list_str validate_dict_any is_str_dict_iff
        is_str_list_iff is_dict_iff)
  show "ServiceConfig_validate d = Valid s \<longrightarrow>
        (map_of d ''image'' = None \<longrightarrow> svc_image s = None)
      \<and> (map_of d ''environment'' = None \<longrightarrow> environment s = [])
      \<and> (map_of d ''volumes'' = None \<longrightarrow> volumes s = [])
      \<and> (map_of d ''ports'' = None \<longrightarrow> ports s = [])
      \<and> (map_of d ''depends_on'' = None \<longrightarrow> depends_on s = [])
      \<and> (map_of d ''extra'' = None \<longrightarrow> extra s = [])"
    by (auto simp: ServiceConfig_validate_Valid with_default_Valid)
qed

theorem ServiceConfig_construction_witness:
  "(\<exists>s. ServiceConfig_validate demo_db = Valid s \<and> svc_image s = Some ''postgres:15''
        \<and> volumes s = [] \<and> ports s = [] \<and> depends_on s = [] \<and> extra s = [])
   \<and> (\<exists>s. ServiceConfig_validate [] = Valid s)
   \<and> \<not> (\<exists>s. ServiceConfig_validate [(''environment'', PStr ''x'')] = Valid s)"
proof -
  have "\<forall>k v. map_of demo_db k = Some v \<longrightarrow> well_shaped k v"
    by (auto simp: demo_db_def well_shaped_def is_str_def is_str_dict_def split: if_splits)
  with ServiceConfig_construction[of demo_db]
  obtain s where s: "ServiceConfig_validate demo_db = Valid s" by blast
  from s have "svc_image s = Some ''postgres:15''"
    by (simp add: ServiceConfig_validate_Valid with_default_Valid demo_db_def
        validate_nullable_Valid validate_str_Valid)
  moreover from ServiceConfig_construction[of demo_db s] s
  have "volumes s = [] \<and> ports s = [] \<and> depends_on s = [] \<and> extra s = []"
    by (simp add: demo_db_def)
  ultimately have 1: "\<exists>s. ServiceConfig_validate demo_db = Valid s \<and> svc_image s = Some ''postgres:15''
        \<and> volumes s = [] \<and> ports s = [] \<and> depends_on s = [] \<and> extra s = []"
    using s by blast
  have 2: "\<exists>s. ServiceConfig_validate [] = Valid s"
    using ServiceConfig_construction[of "[]"] by simp
  have "\<not> well_shaped ''environment'' (PStr ''x'')"
    by (simp add: well_shaped_def is_str_dict_def)
  then have "\<not> (\<forall>k v. map_of [(''environment'', PStr ''x'')] k = Some v \<longrightarrow> well_shaped k v)"
    by auto
  with ServiceConfig_construction[of "[(''environment'', PStr ''x'')]"]
  have 3: "\<not> (\<exists>s. ServiceConfig_validate [(''environment'', PStr ''x'')] = Valid s)"
    by blast
  from 1 2 3 show ?thesis by blast
qed

text \<open>
  C5.  A \<^verbatim>\<open>VPSConfig\<close> constructed without \<^verbatim>\<open>port\<close> has port 22.  An
  \<^verbatim>\<open>ApplicationConfig\<close> constructed without \<^verbatim>\<open>dockerfile\<close>, \<^verbatim>\<open>context\<close>,
  \<^verbatim>\<open>environment\<close>, \<^verbatim>\<open>dependencies\<close> or \<^verbatim>\<open>port\<close> has \<^verbatim>\<open>"./Dockerfile"\<close>,
  \<^verbatim>\<open>"."\<close>, the empty mapping, the empty mapping and \<^verbatim>\<open>None\<close> there; and with a name
  and a domain and none of the optional fields the construction succeeds, with exactly
  these values.
\<close>

theorem omitted_fields_take_defaults:
  "(VPSConfig_validate sai fs dv = Valid v \<and> map_of dv ''port'' = None \<longrightarrow> port v = 22)
   \<and> (ApplicationConfig_validate sai da = Valid a \<longrightarrow>
        (map_of da ''dockerfile'' = None \<longrightarrow> dockerfile a = ''./Dockerfile'')
      \<and> (map_of da ''context'' = None \<longrightarrow> build_context a = ''.'')
      \<and> (map_of da ''environment'' = None \<longrightarrow> app_environment a = [])
      \<and> (map_of da ''dependencies'' = None \<longrightarrow> dependencies a = [])
      \<and> (map_of da ''port'' = None \<longrightarrow> app_port a = None))
   \<and> (map_of da ''name'' = Some (PStr n) \<and> map_of da ''domain'' = Some (PStr dm)
        \<and> map_of da ''dockerfile'' = None \<and> map_of da ''context'' = None
        \<and> map_of da ''port'' = None \<and> map_of da ''environment'' = None
        \<and> map_of da ''dependencies'' = None \<longrightarrow>
        ApplicationConfig_validate sai da
          = Valid \<lparr>name = n, domain = dm, dockerfile = ''./Dockerfile'', build_context = ''.'',
                   app_port = None, app_environment = [], dependencies = []\<rparr>)"
  by (auto simp: VPSConfig_validate_Valid ApplicationConfig_validate_Valid with_default_Valid)

theorem omitted_fields_take_defaults_witness:
  "(\<exists>v. VPSConfig_validate no_str_as_int demo_fs (demo_vps ''~/.ssh/id_rsa'') = Valid v \<and> port v = 22)
   \<and> (\<exists>a. ApplicationConfig_validate no_str_as_int demo_app = Valid a
         \<and> dockerfile a = ''./Dockerfile'' \<and> build_context a = ''.'' \<and> app_port a = None
         \<and> app_environment a = [] \<and> dependencies a = [])"
proof -
  have v: "VPSConfig_validate no_str_as_int demo_fs (demo_vps ''~/.ssh/id_rsa'')
      = Valid \<lparr>host = ''1.2.3.4'', user = ''deploy'', ssh_key_path = ''/home/deploy/.ssh/id_rsa'',
               port = 22, email = None\<rparr>"
    by (simp add: demo_fs_def demo_vps_def path_defs model_defs)
  have m: "map_of (demo_vps ''~/.ssh/id_rsa'') ''port'' = None"
    "map_of demo_app ''name'' = Some (PStr ''blog'')"
    "map_of demo_app ''domain'' = Some (PStr ''blog.example.com'')"
    "map_of demo_app ''dockerfile'' = None" "map_of demo_app ''context'' = None"
    "map_of demo_app ''port'' = None" "map_of demo_app ''environment'' = None"
    "map_of demo_app ''dependencies'' = None"
    by (simp_all add: demo_vps_def demo_app_def)
  note t = omitted_fields_take_defaults[where sai = no_str_as_int and fs = demo_fs
      and dv = "demo_vps ''~/.ssh/id_rsa''" and da = demo_app and n = "''blog''"
      and dm = "''blog.example.com''"]
  from t v m have 1: "\<exists>v. VPSConfig_validate no_str_as_int demo_fs (demo_vps ''~/.ssh/id_rsa'') = Valid v \<and> port v = 22"
    by simp
  from t m have a: "ApplicationConfig_validate no_str_as_int demo_app
          = Valid \<lparr>name = ''blog'', domain = ''blog.example.com'', dockerfile = ''./Dockerfile'',
                   build_context = ''.'', app_port = None, app_environment = [], dependencies = []\<rparr>"
    by blast
  then have 2: "\<exists>a. ApplicationConfig_validate no_str_as_int demo_app = Valid a
         \<and> dockerfile a = ''./Dockerfile'' \<and> build_context a = ''.'' \<and> app_port a = None
         \<and> app_environment a = [] \<and> dependencies a = []"
    by simp
  from 1 2 show ?thesis by blast
qed

subsection \<open>Loading a file that exists\<close>

lemma regular_file_Found:
  "regular_file fs p \<longleftrightarrow> (\<exists>l f. resolve fs p = Found l \<and> \<not> dir_at fs l \<and> files fs l = Some f)"
  by (auto simp: regular_file_def file_at_def split: lookup.splits)

lemma from_yaml_file:
  assumes "resolve fs (Path path) = Found l" and "\<not> dir_at fs l" and "files fs l = Some f"
  shows "from_yaml sai fs path =
     (case f of
        Undecodable \<Rightarrow> Inl UnicodeDecodeError
      | Malformed \<Rightarrow> Inl YAMLError
      | Doc n \<Rightarrow> (case construct n of
                    Inl e \<Rightarrow> Inl e
                  | Inr data \<Rightarrow> DockLiftConfig_init sai fs data))"
  using assms
  by (auto simp: from_yaml_def exists_path_def os_stat_def open_read_def safe_load_def
      split: file_content.splits)

lemma DockLiftConfig_init_not_dict:
  "\<not> is_dict data \<Longrightarrow> DockLiftConfig_init sai fs data
     = Inl (TypeError (''docklift.config.DockLiftConfig() argument after ** must be a mapping, not ''
                        @ type_name data))"
  by (cases data) (auto simp: DockLiftConfig_init_def is_dict_def)

text \<open>
  Whatever \<^verbatim>\<open>from_yaml\<close> returns is complete: the file holds a document that is a
  mapping with a \<^verbatim>\<open>vps\<close> and an \<^verbatim>\<open>application\<close> mapping, and both parts of the result
  are wholly validated.
\<close>

lemma from_yaml_complete:
  assumes "from_yaml sai fs path = Inr c"
  shows "\<exists>l n kwargs dv da. resolve fs (Path path) = Found l \<and> files fs l = Some (Doc n)
            \<and> construct n = Inr (PDict kwargs)
            \<and> map_of kwargs ''vps'' = Some (PDict dv)
            \<and> map_of kwargs ''application'' = Some (PDict da)
            \<and> VPSConfig_validate sai fs dv = Valid (vps c)
            \<and> ApplicationConfig_validate sai da = Valid (application c)"
proof -
  from assms have "exists_path fs (Path path) = Inr True"
    by (auto simp: from_yaml_def Let_def split: sum.splits if_splits)
  moreover from assms obtain f where "open_read fs (Path path) = Inr f"
    by (auto simp: from_yaml_def Let_def split: sum.splits if_splits)
  ultimately obtain l where l: "resolve fs (Path path) = Found l" "\<not> dir_at fs l" "files fs l = Some f"
    by (auto simp: open_read_def split: lookup.splits if_splits option.splits)
  note fy = from_yaml_file[OF l, of sai]
  from assms fy obtain n where n: "f = Doc n"
    by (cases f) auto
  from assms fy n obtain data where d: "construct n = Inr data"
    and i: "DockLiftConfig_init sai fs data = Inr c"
    by (cases "construct n") auto
  from i obtain kwargs where k: "data = PDict kwargs"
    and v: "DockLiftConfig_validate sai fs kwargs = Valid c"
    by (cases data) (auto simp: DockLiftConfig_init_def init_Inr)
  from v l n d k show ?thesis
    by (auto simp: DockLiftConfig_validate_Valid)
qed

lemmas fs_defs = demo_fs_def doc_fs_def

lemmas load_defs = from_yaml_def open_read_def safe_load_def DockLiftConfig_init_def
  DockLiftConfig_validate_def ApplicationConfig_validate_def ServiceConfig_validate_def
  validate_model_def validate_dict_def validate_list_def validate_any_def dict_of_items_def
  type_name_def

text \<open>
  The other ways in which a file that is no configuration is refused: bytes that are no
  text, text that is no YAML, and a document with a timestamp that is no date.
\<close>

lemma safe_load_refuses:
  "safe_load Undecodable = Inl UnicodeDecodeError"
  "safe_load Malformed = Inl YAMLError"
  "safe_load (Doc (NMap False [(''since'', NTimestamp 2020 13 45)]))
     = Inl (ValueError ''month must be in 1..12'')"
  by (simp_all add: safe_load_def date_def)

text \<open>
  C4.  A document in which a block of the configuration is not a mapping is refused with
  a \<^verbatim>\<open>ValidationError\<close>, as the claim has it: pydantic reports the block.  A document
  that is not a mapping itself is not: for the empty file \<^verbatim>\<open>safe_load\<close> returns
  \<^verbatim>\<open>None\<close>, and \<^verbatim>\<open>cls(**None)\<close> raises the \<^verbatim>\<open>TypeError\<close> of the call, which is
  neither an error of the parser nor a \<^verbatim>\<open>ValidationError\<close>.
\<close>

theorem from_yaml_empty_document_TypeError:
  "regular_file doc_fs (Path ''empty.yml'')
   \<and> open_read doc_fs (Path ''empty.yml'') = Inr (Doc NNull)
   \<and> from_yaml no_str_as_int doc_fs ''empty.yml''
       = Inl (TypeError ''docklift.config.DockLiftConfig() argument after ** must be a mapping, not NoneType'')
   \<and> open_read doc_fs (Path ''blocks.yml'')
       = Inr (Doc (NMap False [(''vps'', NNull), (''application'', NNull)]))
   \<and> from_yaml no_str_as_int doc_fs ''blocks.yml''
       = Inl (ValidationError
           [LineError [Key ''vps''] ''model_type''
              ''Input should be a valid dictionary or instance of VPSConfig'',
            LineError [Key ''application''] ''model_type''
              ''Input should be a valid dictionary or instance of ApplicationConfig''])"
  by (simp add: fs_defs path_defs load_defs regular_file_def required_def init_def)

text \<open>The example scenario of the specification, loaded from its file.\<close>

lemma from_yaml_example:
  "from_yaml no_str_as_int doc_fs ''docklift.yml''
     = Inr \<lparr>vps = \<lparr>host = ''1.2.3.4'', user = ''deploy'',
                    ssh_key_path = ''/home/deploy/.ssh/id_rsa'', port = 22, email = None\<rparr>,
            application = \<lparr>name = ''blog'', domain = ''blog.example.com'',
                            dockerfile = ''./Dockerfile'', build_context = ''.'', app_port = None,
                            app_environment = [], dependencies = []\<rparr>\<rparr>"
  by (simp add: fs_defs demo_doc_def path_defs load_defs model_defs)

subsection \<open>Directories\<close>

lemma set_parents: "set (parents p) = (\<lambda>i. p\<lparr>parts := take i (parts p)\<rparr>) ` {..<length (parts p)}"
  by (auto simp: parents_def)

lemma parent_in_parents: "parts q \<noteq> [] \<Longrightarrow> parent q \<in> set (parents q)"
  unfolding set_parents parent_def
  by (auto simp: butlast_conv_take intro!: image_eqI[where x = "length (parts q) - 1"])

lemma parents_parent_subset: "set (parents (parent q)) \<subseteq> set (parents q)"
proof (cases "parts q = []")
  case True
  then show ?thesis by (simp add: parent_def)
next
  case False
  have "(parent q)\<lparr>parts := take i (parts (parent q))\<rparr> = q\<lparr>parts := take i (parts q)\<rparr>"
    if "i < length (parts q) - 1" for i
    using that False by (simp add: parent_def butlast_conv_take min_def)
  with False show ?thesis
    unfolding set_parents by (auto simp: parent_def intro!: image_eqI)
qed

lemma parents_of_parents: "a \<in> set (parents q) \<Longrightarrow> set (parents a) \<subseteq> set (parents q)"
  unfolding set_parents by (auto simp: min_def intro!: image_eqI)

lemma set_parents_step:
  "parts q \<noteq> [] \<Longrightarrow> set (parents q) = insert (parent q) (set (parents (parent q)))"
proof (intro equalityI subsetI)
  fix a assume q: "parts q \<noteq> []" and a: "a \<in> set (parents q)"
  then obtain i where i: "i < length (parts q)" "a = q\<lparr>parts := take i (parts q)\<rparr>"
    by (auto simp: set_parents)
  show "a \<in> insert (parent q) (set (parents (parent q)))"
  proof (cases "i = length (parts q) - 1")
    case True
    with i q show ?thesis by (simp add: parent_def butlast_conv_take)
  next
    case False
    with i have "i < length (parts q) - 1" by simp
    moreover from this q have "a = (parent q)\<lparr>parts := take i (parts (parent q))\<rparr>"
      by (simp add: i parent_def butlast_conv_take min_def)
    ultimately have "a \<in> set (parents (parent q))"
      using q unfolding set_parents by (auto simp: parent_def)
    then show ?thesis by simp
  qed
next
  fix a assume "parts q \<noteq> []" and "a \<in> insert (parent q) (set (parents (parent q)))"
  then show "a \<in> set (parents q)"
    using parent_in_parents parents_parent_subset by auto
qed
lemma parent_neq:
  assumes "parts p \<noteq> []"
  shows "parent p \<noteq> p"
proof
  assume "parent p = p"
  then have "parts (parent p) = parts p" by simp
  with assms have "butlast (parts p) = parts p" by (simp add: parent_def)
  then have "length (butlast (parts p)) = length (parts p)" by simp
  with assms show False by (cases "parts p" rule: rev_cases) auto
qed

lemma parent_eq_iff: "parent p = p \<longleftrightarrow> parts p = []"
  using parent_neq by (auto simp: parent_def)

lemma walk_append:
  "walk fs l (xs @ ys) = (case walk fs l xs of Found m \<Rightarrow> walk fs m ys | r \<Rightarrow> r)"
  by (induction xs arbitrary: l) auto

lemma walk_snoc_Found:
  "walk fs l (xs @ [x]) = Found m \<longleftrightarrow>
     (\<exists>d. walk fs l xs = Found d \<and> dir_at fs d \<and> length x \<le> 255 \<and> m = step d x)"
  by (auto simp: walk_append split: lookup.splits if_splits)

lemma dir_at_mono: "dirs fs \<subseteq> dirs fs' \<Longrightarrow> cwd fs' = cwd fs \<Longrightarrow> dir_at fs l \<Longrightarrow> dir_at fs' l"
  by (auto simp: dir_at_def)

lemma file_at_antimono:
  "dirs fs \<subseteq> dirs fs' \<Longrightarrow> cwd fs' = cwd fs \<Longrightarrow> files fs' = files fs \<Longrightarrow> file_at fs' l \<Longrightarrow> file_at fs l"
  by (auto simp: file_at_def dir_at_def)

lemma walk_mono:
  "dirs fs \<subseteq> dirs fs' \<Longrightarrow> cwd fs' = cwd fs \<Longrightarrow> walk fs l xs = Found m \<Longrightarrow> walk fs' l xs = Found m"
proof (induction xs arbitrary: l)
  case Nil
  then show ?case by simp
next
  case (Cons x xs)
  from Cons.prems(3) have d: "dir_at fs l" and s: "\<not> 255 < length x"
    and w: "walk fs (step l x) xs = Found m"
    by (auto split: if_splits)
  from dir_at_mono[OF Cons.prems(1,2) d] s Cons.IH[OF Cons.prems(1,2) w] show ?case
    by simp
qed

lemma resolve_mono:
  "dirs fs \<subseteq> dirs fs' \<Longrightarrow> cwd fs' = cwd fs \<Longrightarrow> resolve fs p = Found m \<Longrightarrow> resolve fs' p = Found m"
  using walk_mono[of fs fs'] by (auto simp: resolve_def split: if_splits)

lemma directory_mono:
  "dirs fs \<subseteq> dirs fs' \<Longrightarrow> cwd fs' = cwd fs \<Longrightarrow> directory fs a \<Longrightarrow> directory fs' a"
  using resolve_mono[of fs fs' a] dir_at_mono[of fs fs']
  by (auto simp: directory_def split: lookup.splits)

lemma directory_Found: "directory fs p \<longleftrightarrow> (\<exists>l. resolve fs p = Found l \<and> dir_at fs l)"
  by (auto simp: directory_def split: lookup.splits)

text \<open>Walks without \<^verbatim>\<open>..\<close>.\<close>

lemma walk_plain_Found:
  "''..'' \<notin> set xs \<Longrightarrow> walk fs l xs = Found m \<Longrightarrow> m = l @ xs"
proof (induction xs arbitrary: l)
  case Nil
  then show ?case by simp
next
  case (Cons x xs)
  then have "walk fs (l @ [x]) xs = Found m"
    by (auto simp: step_def split: if_splits)
  from Cons.IH[OF _ this] Cons.prems(1) show ?case by simp
qed

lemma walk_plain_ENOTDIR:
  "''..'' \<notin> set xs \<Longrightarrow> walk fs l xs = ENOTDIR \<Longrightarrow> \<exists>i<length xs. file_at fs (l @ take i xs)"
proof (induction xs arbitrary: l)
  case Nil
  then show ?case by simp
next
  case (Cons x xs)
  show ?case
  proof (cases "dir_at fs l")
    case True
    with Cons.prems have "walk fs (l @ [x]) xs = ENOTDIR"
      by (auto simp: step_def split: if_splits)
    from Cons.IH[OF _ this] Cons.prems(1) obtain i where "i < length xs" "file_at fs ((l @ [x]) @ take i xs)"
      by auto
    then have "Suc i < length (x # xs)" "file_at fs (l @ take (Suc i) (x # xs))"
      by simp_all
    then show ?thesis by blast
  next
    case False
    with Cons.prems have "file_at fs l"
      by (auto split: if_splits)
    then have "0 < length (x # xs)" "file_at fs (l @ take 0 (x # xs))"
      by simp_all
    then show ?thesis by blast
  qed
qed

lemma walk_short: "\<forall>x \<in> set xs. length x \<le> 255 \<Longrightarrow> walk fs l xs \<noteq> ENAMETOOLONG"
  by (induction xs arbitrary: l) auto

lemma resolve_plain_Found:
  "''..'' \<notin> set (parts p) \<Longrightarrow> resolve fs p = Found m \<Longrightarrow> m = place_of fs p"
  using walk_plain_Found[of "parts p" fs]
  by (auto simp: resolve_def place_of_def split: if_splits)

lemma place_of_ancestor:
  "place_of fs (p\<lparr>parts := take i (parts p)\<rparr>) = (if root p = [] then cwd fs else []) @ take i (parts p)"
  by (simp add: place_of_def)

lemma place_of_parents_neq:
  assumes "a \<in> set (parents p)"
  shows "place_of fs a \<noteq> place_of fs p"
proof -
  from assms obtain i where i: "i < length (parts p)" and a: "a = p\<lparr>parts := take i (parts p)\<rparr>"
    by (auto simp: set_parents)
  have "length (place_of fs a) < length (place_of fs p)"
    using i by (simp add: a place_of_def)
  then show ?thesis by auto
qed

text \<open>
  The lookup of a path goes through its parent: when the parent is a directory, the path
  leads to a place in it.
\<close>

lemma resolve_parent:
  assumes pp: "parts p \<noteq> []" and len: "length (str_path p) \<le> 4095"
    and d: "directory fs (parent p)" and x: "length (last (parts p)) \<le> 255"
  shows "\<exists>l. resolve fs p = Found l"
proof -
  from d obtain m where m: "resolve fs (parent p) = Found m" "dir_at fs m"
    by (auto simp: directory_Found)
  let ?s = "if root p = [] then cwd fs else []"
  from m(1) pp have w: "walk fs ?s (butlast (parts p)) = Found m"
    by (auto simp: resolve_def parent_def split: if_splits)
  from pp have "parts p = butlast (parts p) @ [last (parts p)]"
    by simp
  then have "walk fs ?s (parts p) = walk fs ?s (butlast (parts p) @ [last (parts p)])"
    by simp
  also have "\<dots> = Found (step m (last (parts p)))"
    using w m(2) x by (simp add: walk_snoc_Found)
  finally show ?thesis
    using len by (simp add: resolve_def)
qed

lemma mkdir_cases:
  "mkdir fs p pa ok =
     (case resolve fs p of
        ENAMETOOLONG \<Rightarrow> Inl (OSError 36 (str_path p))
      | ENOTDIR \<Rightarrow> Inl (NotADirectoryError (str_path p))
      | ENOENT \<Rightarrow>
          if \<not> pa \<or> parent p = p then Inl (FileNotFoundError (str_path p))
          else (case mkdir fs (parent p) True True of
                  Inl e \<Rightarrow> Inl e
                | Inr fs1 \<Rightarrow> mkdir fs1 p False ok)
      | Found l \<Rightarrow>
          if dir_at fs l then (if ok then Inr fs else Inl (FileExistsError (str_path p)))
          else if files fs l \<noteq> None then Inl (FileExistsError (str_path p))
          else Inr (fs\<lparr>dirs := insert l (dirs fs)\<rparr>))"
  by (subst mkdir.simps)
    (auto simp: os_mkdir_def is_dir_def os_stat_def ignore_error_def split: lookup.splits)

lemma os_mkdir_ENOENT:
  "resolve fs p = ENOENT \<Longrightarrow> os_mkdir fs p = Inl (FileNotFoundError (str_path p))"
  by (simp add: os_mkdir_def)

lemma mkdir_effect:
  "mkdir fs q pa ok = Inr fs' \<Longrightarrow> ok \<Longrightarrow>
     directory fs' q \<and> files fs' = files fs \<and> cwd fs' = cwd fs \<and> homes fs' = homes fs
     \<and> dirs fs \<subseteq> dirs fs'
     \<and> (\<forall>l \<in> dirs fs' - dirs fs. \<exists>a \<in> set (q # parents q). resolve fs' a = Found l)"
proof (induction fs q pa ok arbitrary: fs' rule: mkdir.induct)
  case (1 fs p pa ok)
  note res = \<open>mkdir fs p pa ok = Inr fs'\<close>
  note eq = mkdir_cases[of fs p pa ok]
  show ?case
  proof (cases "resolve fs p")
    case (Found l)
    show ?thesis
    proof (cases "dir_at fs l")
      case True
      with res Found have "fs' = fs"
        unfolding eq by (auto split: if_splits)
      with Found True show ?thesis
        by (auto simp: directory_Found)
    next
      case False
      with res Found have fs': "fs' = fs\<lparr>dirs := insert l (dirs fs)\<rparr>"
        unfolding eq by (auto split: if_splits)
      then have sub: "dirs fs \<subseteq> dirs fs'" and c: "cwd fs' = cwd fs"
        by auto
      from resolve_mono[OF sub c Found] have r: "resolve fs' p = Found l" .
      moreover have "dir_at fs' l"
        by (simp add: fs' dir_at_def)
      ultimately have "directory fs' p"
        by (auto simp: directory_Found)
      moreover have "\<forall>l' \<in> dirs fs' - dirs fs. \<exists>a \<in> set (p # parents p). resolve fs' a = Found l'"
        using r by (auto simp: fs')
      ultimately show ?thesis
        using sub by (simp add: fs')
    qed
  next
    case ENOTDIR
    with res show ?thesis unfolding eq by simp
  next
    case ENAMETOOLONG
    with res show ?thesis unfolding eq by simp
  next
    case ENOENT
    with res have c: "\<not> (\<not> pa \<or> parent p = p)"
      unfolding eq by (auto split: if_splits)
    note om = os_mkdir_ENOENT[OF ENOENT]
    from res ENOENT c obtain fs1 where fs1: "mkdir fs (parent p) True True = Inr fs1"
      and r2: "mkdir fs1 p False ok = Inr fs'"
      unfolding eq by (auto split: sum.splits)
    from "1.IH"(1)[OF om refl c fs1] have e1: "files fs1 = files fs"
      "cwd fs1 = cwd fs" "homes fs1 = homes fs" "dirs fs \<subseteq> dirs fs1"
      "\<forall>l \<in> dirs fs1 - dirs fs. \<exists>a \<in> set (parent p # parents (parent p)). resolve fs1 a = Found l"
      by simp_all
    from "1.IH"(2)[OF om refl c fs1 r2 1(4)] have e2: "directory fs' p" "files fs' = files fs1"
      "cwd fs' = cwd fs1" "homes fs' = homes fs1" "dirs fs1 \<subseteq> dirs fs'"
      "\<forall>l \<in> dirs fs' - dirs fs1. \<exists>a \<in> set (p # parents p). resolve fs' a = Found l"
      by simp_all
    from c have pp: "parts p \<noteq> []" by (simp add: parent_eq_iff)
    then have s1: "set (parent p # parents (parent p)) \<subseteq> set (p # parents p)"
      by (auto simp: set_parents_step)
    have new: "\<exists>a \<in> set (p # parents p). resolve fs' a = Found l" if l: "l \<in> dirs fs' - dirs fs" for l
    proof (cases "l \<in> dirs fs1")
      case True
      with l e1(5) obtain a where a: "a \<in> set (parent p # parents (parent p))" "resolve fs1 a = Found l"
        by blast
      from resolve_mono[OF e2(5) e2(3) a(2)] a(1) s1 show ?thesis by blast
    next
      case False
      with l e2(6) show ?thesis by blast
    qed
    from e1(4) e2(5) have "dirs fs \<subseteq> dirs fs'" by blast
    with new e1(1,2,3) e2(1,2,3,4) show ?thesis by simp
  qed
qed

lemma place_of_same: "cwd fs' = cwd fs \<Longrightarrow> place_of fs' a = place_of fs a"
  by (simp add: place_of_def)

lemma mkdir_succeeds:
  "ok \<Longrightarrow> pa \<or> directory fs (parent q) \<Longrightarrow> ''..'' \<notin> set (parts q) \<Longrightarrow>
     \<forall>x \<in> set (parts q). length x \<le> 255 \<Longrightarrow>
     \<forall>a \<in> set (q # parents q). length (str_path a) \<le> 4095 \<Longrightarrow>
     \<forall>a \<in> set (q # parents q). \<not> file_at fs (place_of fs a) \<Longrightarrow>
     \<exists>fs'. mkdir fs q pa ok = Inr fs'"
proof (induction fs q pa ok rule: mkdir.induct)
  case (1 fs p pa ok)
  note plain = \<open>''..'' \<notin> set (parts p)\<close>
  note short = \<open>\<forall>x \<in> set (parts p). length x \<le> 255\<close>
  note len = \<open>\<forall>a \<in> set (p # parents p). length (str_path a) \<le> 4095\<close>
  note nf = \<open>\<forall>a \<in> set (p # parents p). \<not> file_at fs (place_of fs a)\<close>
  note eq = mkdir_cases[of fs p pa ok]
  let ?s = "if root p = [] then cwd fs else []"
  from len have lp: "length (str_path p) \<le> 4095" by simp
  then have rw: "resolve fs p = walk fs ?s (parts p)"
    by (simp add: resolve_def)
  show ?case
  proof (cases "resolve fs p")
    case (Found l)
    from resolve_plain_Found[OF plain Found] nf have "\<not> file_at fs l"
      by simp
    with Found 1(3) show ?thesis
      unfolding eq by (auto simp: file_at_def)
  next
    case ENAMETOOLONG
    from ENAMETOOLONG[unfolded rw] walk_short[OF short] show ?thesis by blast
  next
    case ENOTDIR
    with rw walk_plain_ENOTDIR[OF plain] obtain i where i: "i < length (parts p)"
      and f: "file_at fs (?s @ take i (parts p))"
      by metis
    from i have "p\<lparr>parts := take i (parts p)\<rparr> \<in> set (parents p)"
      unfolding set_parents by blast
    with nf have "\<not> file_at fs (place_of fs (p\<lparr>parts := take i (parts p)\<rparr>))"
      by simp
    with f show ?thesis by (simp add: place_of_ancestor)
  next
    case ENOENT
    from ENOENT rw have pp: "parts p \<noteq> []"
      by auto
    then have np: "parent p \<noteq> p" by (rule parent_neq)
    from short pp have sl: "length (last (parts p)) \<le> 255"
      by simp
    have pa: pa
    proof (rule ccontr)
      assume "\<not> pa"
      with 1(4) have "directory fs (parent p)" by simp
      from resolve_parent[OF pp lp this sl] ENOENT show False by simp
    qed
    from pa np have c: "\<not> (\<not> pa \<or> parent p = p)" by simp
    note om = os_mkdir_ENOENT[OF ENOENT]
    have s1: "set (parent p # parents (parent p)) \<subseteq> set (p # parents p)"
      using pp by (auto simp: set_parents_step)
    from plain have plain1: "''..'' \<notin> set (parts (parent p))"
      by (auto simp: parent_def dest: in_set_butlastD)
    from short have short1: "\<forall>x \<in> set (parts (parent p)). length x \<le> 255"
      by (auto simp: parent_def dest: in_set_butlastD)
    from len s1 have len1: "\<forall>a \<in> set (parent p # parents (parent p)). length (str_path a) \<le> 4095"
      by blast
    from nf s1 have nf1: "\<forall>a \<in> set (parent p # parents (parent p)). \<not> file_at fs (place_of fs a)"
      by blast
    from "1.IH"(1)[OF om refl c _ _ plain1 short1 len1 nf1] obtain fs1 where
      fs1: "mkdir fs (parent p) True True = Inr fs1" by auto
    from mkdir_effect[OF fs1] have e1: "directory fs1 (parent p)" "files fs1 = files fs"
      "cwd fs1 = cwd fs" "dirs fs \<subseteq> dirs fs1" by simp_all
    have nf2: "\<forall>a \<in> set (p # parents p). \<not> file_at fs1 (place_of fs1 a)"
    proof
      fix a assume "a \<in> set (p # parents p)"
      with nf have "\<not> file_at fs (place_of fs a)" by blast
      with file_at_antimono[OF e1(4,3,2)] show "\<not> file_at fs1 (place_of fs1 a)"
        unfolding place_of_same[OF e1(3)] by blast
    qed
    from "1.IH"(2)[OF om refl c fs1 1(3) _ plain short len nf2] e1(1) obtain fs' where
      "mkdir fs1 p False ok = Inr fs'" by auto
    with ENOENT c fs1 show ?thesis unfolding eq by simp
  qed
qed

text \<open>When a path leads to a directory, so does every ancestor of it.\<close>

lemma join_sep_take_length:
  "\<forall>x \<in> set xs. x \<noteq> [] \<Longrightarrow> length (join_sep c (take i xs)) \<le> length (join_sep c xs)"
proof (induction xs arbitrary: i)
  case Nil
  then show ?case by simp
next
  case (Cons x xs)
  show ?case
  proof (cases i)
    case 0
    then show ?thesis by simp
  next
    case (Suc j)
    from Cons have "length (join_sep c (take j xs)) \<le> length (join_sep c xs)"
      by simp
    then show ?thesis
      by (cases "take j xs = []"; cases "xs = []") (auto simp: Suc join_sep_Cons)
  qed
qed

lemma str_path_ancestor_length:
  assumes "wf_path p"
  shows "length (str_path (p\<lparr>parts := take i (parts p)\<rparr>)) \<le> length (str_path p)"
proof -
  from assms have ne: "\<forall>x \<in> set (parts p). x \<noteq> []"
    by (auto simp: wf_path_def)
  have j: "length (join_sep CHR ''/'' (take i (parts p))) \<le> length (join_sep CHR ''/'' (parts p))"
    using join_sep_take_length[OF ne] .
  show ?thesis
  proof (cases "root p @ join_sep CHR ''/'' (take i (parts p)) = []")
    case True
    then have "str_path (p\<lparr>parts := take i (parts p)\<rparr>) = ''.''"
      by (simp add: str_path_def)
    moreover have "1 \<le> length (str_path p)"
      by (auto simp: str_path_def Let_def Suc_le_eq)
    ultimately show ?thesis by simp
  next
    case False
    then have "root p @ join_sep CHR ''/'' (parts p) \<noteq> []"
      using j by auto
    with False j show ?thesis
      by (auto simp: str_path_def)
  qed
qed

lemma directory_ancestors:
  assumes wf: "wf_path p" and d: "directory fs p" and a: "a \<in> set (parents p)"
  shows "directory fs a"
proof -
  from a obtain i where i: "i < length (parts p)" and ai: "a = p\<lparr>parts := take i (parts p)\<rparr>"
    by (auto simp: set_parents)
  let ?s = "if root p = [] then cwd fs else []"
  from d obtain l where l: "resolve fs p = Found l"
    by (auto simp: directory_Found)
  then have lp: "length (str_path p) \<le> 4095" and w: "walk fs ?s (parts p) = Found l"
    by (auto simp: resolve_def split: if_splits)
  have "walk fs ?s (parts p)
      = (case walk fs ?s (take i (parts p)) of Found m \<Rightarrow> walk fs m (drop i (parts p)) | r \<Rightarrow> r)"
    using walk_append[of fs ?s "take i (parts p)" "drop i (parts p)"] by simp
  with w obtain m where m: "walk fs ?s (take i (parts p)) = Found m"
    and r: "walk fs m (drop i (parts p)) = Found l"
    by (auto split: lookup.splits)
  from i obtain y ys where "drop i (parts p) = y # ys"
    by (cases "drop i (parts p)") auto
  with r have "dir_at fs m"
    by (auto split: if_splits)
  moreover from str_path_ancestor_length[OF wf, of i] lp have "length (str_path a) \<le> 4095"
    by (simp add: ai)
  ultimately show ?thesis
    using m by (simp add: directory_Found resolve_def ai)
qed

subsection \<open>Sorted items\<close>

lemma sort_key_map_values:
  "sort_key fst (map (\<lambda>(k, v). (k, f v)) xs) = map (\<lambda>(k, v). (k, f v)) (sort_key fst xs)"
proof (induction xs)
  case Nil
  then show ?case by simp
next
  case (Cons x xs)
  have ins: "insort_key fst (k, f v) (map (\<lambda>(k, v). (k, f v)) ys)
      = map (\<lambda>(k, v). (k, f v)) (insort_key fst (k, v) ys)" for k v ys
    by (induction ys) (auto simp: split_beta)
  obtain k v where "x = (k, v)" by (cases x)
  with Cons ins show ?case by simp
qed

lemma distinct_keys_insort:
  "distinct (map fst (insort_key fst x xs)) = (fst x \<notin> fst ` set xs \<and> distinct (map fst xs))"
  by (induction xs) (auto simp: set_insort_key)

lemma distinct_keys_sort: "distinct (map fst (sort_key fst xs)) = distinct (map fst xs)"
  by (induction xs) (auto simp: distinct_keys_insort)




lemma map_items_comp:
  "map (\<lambda>(k, v). (k, g v)) (map (\<lambda>(k, v). (k, f v)) xs) = map (\<lambda>(k, v). (k, g (f v))) xs"
  by (induction xs) auto

lemma represent_dump_dict:
  "represent dfs (dump_dict f kvs)
     = NMap dfs (sort_key fst (map (\<lambda>(k, v). (k, represent dfs (f v))) kvs))"
  by (simp add: dump_dict_def map_items_comp del: map_map)

lemma represent_jsonable_PDict:
  "represent dfs (to_jsonable (PDict kvs))
     = NMap dfs (sort_key fst (map (\<lambda>(k, v). (k, represent dfs (to_jsonable v))) kvs))"
  by (simp add: map_items_comp del: map_map)

lemma map_fst_items: "map fst (map (\<lambda>(k, v). (k, f v)) xs) = map fst xs"
  by (induction xs) auto

subsection \<open>The document of a configuration\<close>





lemma emit_sorted_items:
  "emit False (NMap False (sort_key fst (map (\<lambda>(k, v). (k, f v)) kvs)))
     = NMap (kvs = []) (map (\<lambda>(k, v). (k, emit False (f v))) (sort_key fst kvs))"
proof (cases "kvs = []")
  case True
  then show ?thesis by simp
next
  case False
  then have "map (\<lambda>(k, v). (k, f v)) (sort_key fst kvs) \<noteq> []"
    by (metis length_0_conv length_map length_sort)
  with False show ?thesis
    by (simp add: sort_key_map_values map_items_comp del: map_map)
qed

lemma map_items_cong:
  "(\<And>v. v \<in> snd ` set kvs \<Longrightarrow> f v = g v) \<Longrightarrow>
     map (\<lambda>(k, v). (k, f v)) kvs = map (\<lambda>(k, v). (k, g v)) kvs"
  by (induction kvs) auto

lemma emit_represent_dump_dict:
  assumes "\<And>v. v \<in> snd ` set kvs \<Longrightarrow> emit False (represent False (f v)) = g v"
  shows "emit False (represent False (dump_dict f kvs)) = map_node g kvs"
proof -
  have "map (\<lambda>(k, v). (k, emit False (represent False (f v)))) (sort_key fst kvs)
      = map (\<lambda>(k, v). (k, g v)) (sort_key fst kvs)"
    by (rule map_items_cong) (simp add: assms)
  then show ?thesis
    by (simp only: represent_dump_dict emit_sorted_items map_node_def)
qed

lemma emit_represent_str_list: "emit False (represent False (PList (map PStr xs))) = seq_node xs"
  by (cases "xs = []") (simp_all add: seq_node_def comp_def)

lemma emit_represent_opt:
  "(\<And>y. emit False (represent False (f y)) = g y) \<Longrightarrow>
     emit False (represent False (dump_opt f x)) = opt_node g x"
  by (cases x) (simp_all add: dump_opt_def opt_node_def)

lemma emit_represent_jsonable: "emit False (represent False (to_jsonable v)) = value_node v"
proof (induction v)
  case (PList xs)
  then show ?case by (cases "xs = []") (simp_all add: comp_def)
next
  case (PDict kvs)
  have "map (\<lambda>(k, v). (k, emit False (represent False (to_jsonable v)))) (sort_key fst kvs)
      = map (\<lambda>(k, v). (k, value_node v)) (sort_key fst kvs)"
  proof (rule map_items_cong)
    fix v assume "v \<in> snd ` set (sort_key fst kvs)"
    then obtain kv where "kv \<in> set kvs" "v \<in> Basic_BNFs.snds kv"
      by (auto simp: snds.simps)
    then show "emit False (represent False (to_jsonable v)) = value_node v"
      by (rule PDict.IH)
  qed
  then show ?case
    by (simp only: represent_jsonable_PDict emit_sorted_items value_node.simps)
qed simp_all

lemma emit_represent_ServiceConfig_items:
  "emit False (represent False (PDict [(''image'', a), (''environment'', b), (''volumes'', c),
      (''ports'', d), (''depends_on'', e), (''extra'', f)]))
     = NMap False [(''depends_on'', emit False (represent False e)),
                   (''environment'', emit False (represent False b)),
                   (''extra'', emit False (represent False f)),
                   (''image'', emit False (represent False a)),
                   (''ports'', emit False (represent False d)),
                   (''volumes'', emit False (represent False c))]"
  by simp

lemma emit_represent_ApplicationConfig_items:
  "emit False (represent False (PDict [(''name'', a), (''domain'', b), (''dockerfile'', c),
      (''context'', d), (''port'', e), (''environment'', f), (''dependencies'', g)]))
     = NMap False [(''context'', emit False (represent False d)),
                   (''dependencies'', emit False (represent False g)),
                   (''dockerfile'', emit False (represent False c)),
                   (''domain'', emit False (represent False b)),
                   (''environment'', emit False (represent False f)),
                   (''name'', emit False (represent False a)),
                   (''port'', emit False (represent False e))]"
  by simp

lemma emit_represent_VPSConfig_items:
  "emit False (represent False (PDict [(''host'', a), (''user'', b), (''ssh_key_path'', c),
      (''port'', d), (''email'', e)]))
     = NMap False [(''email'', emit False (represent False e)),
                   (''host'', emit False (represent False a)),
                   (''port'', emit False (represent False d)),
                   (''ssh_key_path'', emit False (represent False c)),
                   (''user'', emit False (represent False b))]"
  by simp

lemma emit_represent_DockLiftConfig_items:
  "emit False (represent False (PDict [(''vps'', a), (''application'', b)]))
     = NMap False [(''application'', emit False (represent False b)),
                   (''vps'', emit False (represent False a))]"
  by simp

lemma emit_scalars:
  "emit False (represent False (PStr s)) = NStr s"
  "emit False (represent False (PInt n)) = NInt n"
  by simp_all

lemma emit_represent_ServiceConfig:
  "emit False (represent False (ServiceConfig_dump s)) = service_document s"
  unfolding ServiceConfig_dump_def service_document_def emit_represent_ServiceConfig_items
  by (simp only: emit_represent_str_list emit_represent_dump_dict[where g = NStr, OF emit_scalars(1)]
      emit_represent_dump_dict[where g = value_node, OF emit_represent_jsonable]
      emit_represent_opt[where g = NStr, OF emit_scalars(1)])

lemma emit_represent_model_dump:
  "emit False (represent False (model_dump c)) = document c"
  unfolding model_dump_def ApplicationConfig_dump_def VPSConfig_dump_def document_def
    emit_represent_DockLiftConfig_items emit_represent_ApplicationConfig_items
    emit_represent_VPSConfig_items
  by (simp only: emit_scalars emit_represent_dump_dict[where g = NStr, OF emit_scalars(1)]
      emit_represent_dump_dict[where g = service_document, OF emit_represent_ServiceConfig]
      emit_represent_opt[where g = NStr, OF emit_scalars(1)]
      emit_represent_opt[where g = NInt, OF emit_scalars(2)])

lemma yaml_dump_document: "yaml_dump (model_dump c) False = Doc (document c)"
  by (simp add: yaml_dump_def emit_represent_model_dump)



subsection \<open>Saving\<close>

lemma dir_at_start: "dir_at fs (if root p = [] then cwd fs else [])"
  by (simp add: dir_at_def)

lemma resolve_no_parts: "parts p = [] \<Longrightarrow> resolve fs p = Found l \<Longrightarrow> dir_at fs l"
  using dir_at_start[of fs p] by (auto simp: resolve_def split: if_splits)

lemma wf_path_parent: "wf_path p \<Longrightarrow> wf_path (parent p)"
  by (auto simp: wf_path_def parent_def dest: in_set_butlastD)

lemma open_write_Inr:
  "open_write fs p c = Inr fs' \<longleftrightarrow>
     (\<exists>l. resolve fs p = Found l \<and> \<not> dir_at fs l \<and> fs' = fs\<lparr>files := (files fs)(l \<mapsto> c)\<rparr>)"
  by (auto simp: open_write_def split: lookup.splits)

lemma to_yaml_Inr:
  "to_yaml fs self path = Inr fs' \<longleftrightarrow>
     (\<exists>fs1 l. mkdir fs (parent (Path path)) True True = Inr fs1
        \<and> resolve fs1 (Path path) = Found l \<and> \<not> dir_at fs1 l
        \<and> fs' = fs1\<lparr>files := (files fs1)(l \<mapsto> Doc (document self))\<rparr>)"
  by (auto simp: to_yaml_def Let_def open_write_Inr yaml_dump_document split: sum.splits)

lemma to_yaml_succeeds:
  assumes w: "writable fs (Path path)"
  shows "\<exists>fs'. to_yaml fs self path = Inr fs'"
proof -
  let ?p = "Path path"
  from w have plain: "''..'' \<notin> set (parts ?p)"
    and short: "\<forall>x \<in> set (parts ?p). length x \<le> 255"
    and len: "\<forall>a \<in> set (?p # parents ?p). length (str_path a) \<le> 4095"
    and nf: "\<forall>a \<in> set (parents ?p). \<not> file_at fs (place_of fs a)"
    and nd: "\<not> dir_at fs (place_of fs ?p)"
    by (simp_all add: writable_def)
  have pp: "parts ?p \<noteq> []"
  proof
    assume "parts ?p = []"
    then have "place_of fs ?p = (if root ?p = [] then cwd fs else [])"
      by (simp add: place_of_def)
    with nd dir_at_start[of fs ?p] show False by simp
  qed
  have s1: "set (parent ?p # parents (parent ?p)) = set (parents ?p)"
    using set_parents_step[OF pp] by simp
  from plain have plain1: "''..'' \<notin> set (parts (parent ?p))"
    by (auto simp: parent_def dest: in_set_butlastD)
  from short have short1: "\<forall>x \<in> set (parts (parent ?p)). length x \<le> 255"
    by (auto simp: parent_def dest: in_set_butlastD)
  from len have len1: "\<forall>a \<in> set (parent ?p # parents (parent ?p)). length (str_path a) \<le> 4095"
    unfolding s1 by simp
  from nf have nf1: "\<forall>a \<in> set (parent ?p # parents (parent ?p)). \<not> file_at fs (place_of fs a)"
    unfolding s1 .
  from mkdir_succeeds[where ok = True and pa = True, OF _ _ plain1 short1 len1 nf1] obtain fs1 where
    fs1: "mkdir fs (parent ?p) True True = Inr fs1" by blast
  from mkdir_effect[OF fs1] have e: "directory fs1 (parent ?p)" "cwd fs1 = cwd fs"
    "dirs fs \<subseteq> dirs fs1"
    "\<forall>l \<in> dirs fs1 - dirs fs. \<exists>a \<in> set (parent ?p # parents (parent ?p)). resolve fs1 a = Found l"
    by simp_all
  from len have lp: "length (str_path ?p) \<le> 4095" by simp
  from short pp have sl: "length (last (parts ?p)) \<le> 255" by simp
  from resolve_parent[OF pp lp e(1) sl] obtain l where l: "resolve fs1 ?p = Found l"
    by blast
  from resolve_plain_Found[OF plain l] have lp: "l = place_of fs ?p"
    by (simp add: place_of_same[OF e(2)])
  have "\<not> dir_at fs1 l"
  proof
    assume d: "dir_at fs1 l"
    show False
    proof (cases "l \<in> dirs fs1 - dirs fs")
      case True
      with e(4) obtain a where a: "a \<in> set (parents ?p)" and r: "resolve fs1 a = Found l"
        unfolding s1 by blast
      from a obtain i where "a = ?p\<lparr>parts := take i (parts ?p)\<rparr>"
        by (auto simp: set_parents)
      with plain have "''..'' \<notin> set (parts a)"
        by (auto dest: in_set_takeD)
      from resolve_plain_Found[OF this r] have "l = place_of fs a"
        by (simp add: place_of_same[OF e(2)])
      with lp place_of_parents_neq[OF a, of fs] show False by simp
    next
      case False
      with d have "dir_at fs l"
        by (auto simp: dir_at_def e(2))
      with nd lp show False by simp
    qed
  qed
  with fs1 l show ?thesis
    by (auto simp: to_yaml_Inr)
qed

lemma to_yaml_result:
  assumes res: "to_yaml fs self path = Inr fs'"
  shows "(\<exists>l. resolve fs' (Path path) = Found l
            \<and> files fs' = (files fs)(l \<mapsto> Doc (document self))
            \<and> (''..'' \<notin> set (parts (Path path)) \<longrightarrow> l = place_of fs (Path path)))
      \<and> (\<forall>a \<in> set (parents (Path path)). directory fs' a)
      \<and> dirs fs \<subseteq> dirs fs'
      \<and> (\<forall>l \<in> dirs fs' - dirs fs. \<exists>a \<in> set (parents (Path path)). resolve fs' a = Found l)
      \<and> cwd fs' = cwd fs \<and> homes fs' = homes fs"
proof -
  let ?p = "Path path"
  from res obtain fs1 l where fs1: "mkdir fs (parent ?p) True True = Inr fs1"
    and l: "resolve fs1 ?p = Found l" and nd: "\<not> dir_at fs1 l"
    and fs': "fs' = fs1\<lparr>files := (files fs1)(l \<mapsto> Doc (document self))\<rparr>"
    unfolding to_yaml_Inr by blast
  from l nd have pp: "parts ?p \<noteq> []"
    using resolve_no_parts by blast
  have s1: "set (parent ?p # parents (parent ?p)) = set (parents ?p)"
    using set_parents_step[OF pp] by simp
  from mkdir_effect[OF fs1] have e: "directory fs1 (parent ?p)" "files fs1 = files fs"
    "cwd fs1 = cwd fs" "homes fs1 = homes fs" "dirs fs \<subseteq> dirs fs1"
    "\<forall>l \<in> dirs fs1 - dirs fs. \<exists>a \<in> set (parents ?p). resolve fs1 a = Found l"
    unfolding s1 by simp_all
  have d: "dirs fs1 \<subseteq> dirs fs'" "dirs fs' = dirs fs1" and c: "cwd fs' = cwd fs1"
    by (simp_all add: fs')
  note rm = resolve_mono[OF d(1) c]
  from rm[OF l] have 1: "resolve fs' ?p = Found l" .
  have 2: "files fs' = (files fs)(l \<mapsto> Doc (document self))"
    by (simp add: fs' e(2))
  have 3: "l = place_of fs ?p" if "''..'' \<notin> set (parts ?p)"
    using resolve_plain_Found[OF that l] by (simp add: place_of_same[OF e(3)])
  have dp: "directory fs' (parent ?p)"
    using directory_mono[OF d(1) c e(1)] .
  have 4: "\<forall>a \<in> set (parents ?p). directory fs' a"
  proof
    fix a assume "a \<in> set (parents ?p)"
    then consider "a = parent ?p" | "a \<in> set (parents (parent ?p))"
      unfolding s1[symmetric] by auto
    then show "directory fs' a"
    proof cases
      case 1
      with dp show ?thesis by simp
    next
      case 2
      from directory_ancestors[OF wf_path_parent[OF wf_path_Path] dp 2] show ?thesis .
    qed
  qed
  have 5: "\<forall>l \<in> dirs fs' - dirs fs. \<exists>a \<in> set (parents ?p). resolve fs' a = Found l"
    using e(6) rm unfolding d(2) by blast
  from 1 2 3 4 5 e(3,4,5) show ?thesis
    by (auto simp: fs')
qed


lemma parents_demo:
  "parents (Path ''etc/docklift/docklift.yml'')
     = [\<lparr>root = [], parts = [''etc'', ''docklift'']\<rparr>, \<lparr>root = [], parts = [''etc'']\<rparr>,
        \<lparr>root = [], parts = []\<rparr>]"
  "parents (Path ''docklift.yml'') = [\<lparr>root = [], parts = []\<rparr>]"
  by code_simp+

lemma Path_demo:
  "Path ''etc/docklift/docklift.yml'' = \<lparr>root = [], parts = [''etc'', ''docklift'', ''docklift.yml'']\<rparr>"
  "Path ''docklift.yml'' = \<lparr>root = [], parts = [''docklift.yml'']\<rparr>"
  by (simp_all add: path_defs)



subsection \<open>Equal values, equal documents\<close>

lemma same_value_PDict: "same_value (PDict a) (PDict b) = dict_eq same_value a b"
  by (simp add: dict_eq_def)








lemma wf_demo_cfg: "wf_config demo_cfg" "wf_config demo_cfg_reordered"
  by (simp_all add: wf_config_def wf_ServiceConfig_def demo_cfg_def demo_cfg_reordered_def)


text \<open>Values of the same types that are equal are equal as Python values.\<close>

lemma same_value_py_eq: "same_value v w \<Longrightarrow> py_eq v w"
proof (induction v arbitrary: w)
  case (PList xs)
  from PList.prems obtain ys where w: "w = PList ys" and l: "list_all2 same_value xs ys"
    by (cases w) auto
  have "list_all2 py_eq xs ys"
    using l PList.IH by (auto simp: list_all2_conv_all_nth)
  with w show ?case by simp
next
  case (PDict a)
  from PDict.prems obtain b where w: "w = PDict b" and eq: "dict_eq same_value a b"
    by (cases w) (auto simp: dict_eq_def)
  have "dict_eq py_eq a b"
    unfolding dict_eq_def
  proof (intro conjI ballI)
    show "length a = length b"
      using eq by (simp add: dict_eq_def)
    fix kv assume kv: "kv \<in> set a"
    obtain k v where p: "kv = (k, v)" by (cases kv)
    from eq kv p obtain y where y: "map_of b k = Some y" "same_value v y"
      by (auto simp: dict_eq_def split: option.splits)
    from kv p have "v \<in> Basic_BNFs.snds kv"
      by (simp add: snds.simps)
    from PDict.IH[OF kv this y(2)] y(1) p
    show "case kv of (k, v) \<Rightarrow> (case map_of b k of None \<Rightarrow> False | Some w \<Rightarrow> py_eq v w)"
      by simp
  qed
  with w show ?case by (simp add: dict_eq_def)
qed (auto split: pyval.splits)


subsection \<open>Constructing what was represented\<close>

lemma dict_set_fresh: "k \<notin> fst ` set d \<Longrightarrow> dict_set d k v = d @ [(k, v)]"
  by (induction d) auto

lemma foldl_dict_set_distinct:
  "distinct (map fst (acc @ kvs)) \<Longrightarrow> foldl (\<lambda>d (k, v). dict_set d k v) acc kvs = acc @ kvs"
proof (induction kvs arbitrary: acc)
  case Nil
  then show ?case by simp
next
  case (Cons kv kvs)
  obtain k v where kv: "kv = (k, v)" by (cases kv)
  from Cons.prems have "k \<notin> fst ` set acc" by (auto simp: kv)
  then have s: "dict_set acc k v = acc @ [(k, v)]" by (rule dict_set_fresh)
  from Cons.prems have "distinct (map fst ((acc @ [(k, v)]) @ kvs))" by (simp add: kv)
  from Cons.IH[OF this] show ?case by (simp add: kv s)
qed

lemma dict_of_items_distinct: "distinct (map fst kvs) \<Longrightarrow> dict_of_items kvs = kvs"
  using foldl_dict_set_distinct[of "[]" kvs] by (simp add: dict_of_items_def)



lemma build_sorted_items:
  assumes "distinct (map fst kvs)"
  shows "build (NMap dfs (sort_key fst (map (\<lambda>(k, v). (k, n v)) kvs)))
       = PDict (map (\<lambda>(k, v). (k, build (n v))) (sort_key fst kvs))"
proof -
  have "distinct (map fst (map (\<lambda>(k, v). (k, build (n v))) (sort_key fst kvs)))"
    using assms by (simp only: map_fst_items distinct_keys_sort)
  then show ?thesis
    by (simp add: sort_key_map_values map_items_comp dict_of_items_distinct del: map_map)
qed

lemma build_represent_dump_dict:
  "distinct (map fst kvs) \<Longrightarrow>
     build (represent dfs (dump_dict f kvs))
       = PDict (map (\<lambda>(k, v). (k, build (represent dfs (f v)))) (sort_key fst kvs))"
  by (simp only: represent_dump_dict build_sorted_items)

lemma build_represent_PDict:
  "distinct (map fst kvs) \<Longrightarrow>
     build (represent dfs (PDict kvs))
       = PDict (map (\<lambda>(k, v). (k, build (represent dfs v))) (sort_key fst kvs))"
  by (simp only: represent.simps build_sorted_items)

lemma dict_eq_sorted_map:
  assumes d: "distinct (map fst a)" and r: "\<forall>v \<in> snd ` set a. R v (g v)"
  shows "dict_eq R a (map (\<lambda>(k, v). (k, g v)) (sort_key fst a))"
proof -
  let ?b = "map (\<lambda>(k, v). (k, g v)) (sort_key fst a)"
  have db: "distinct (map fst ?b)"
    using d by (simp only: map_fst_items distinct_keys_sort)
  have "map_of ?b k = Some (g v) \<and> R v (g v)" if kv: "(k, v) \<in> set a" for k v
  proof -
    from kv have "(k, v) \<in> set (sort_key fst a)" by simp
    then have "(k, g v) \<in> set ?b" by force
    with db have "map_of ?b k = Some (g v)" by (rule map_of_is_SomeI)
    moreover from kv r have "R v (g v)" by force
    ultimately show ?thesis by simp
  qed
  then show ?thesis
    by (auto simp: dict_eq_def)
qed

lemma to_jsonable_native: "json_native v \<Longrightarrow> to_jsonable v = v"
proof (induction v)
  case (PList xs)
  then show ?case by (simp add: map_idI)
next
  case (PDict kvs)
  have "map (\<lambda>(k, v). (k, to_jsonable v)) kvs = kvs"
  proof (rule map_idI)
    fix kv assume kv: "kv \<in> set kvs"
    obtain k v where e: "kv = (k, v)" by (cases kv)
    from PDict.prems kv e have "json_native v" by auto
    with PDict.IH[of kv v] kv e show "(case kv of (k, v) \<Rightarrow> (k, to_jsonable v)) = kv"
      by (simp add: snds.simps)
  qed
  then show ?case by simp
qed auto

lemma same_value_build_represent: "wf_pyval v \<Longrightarrow> same_value v (build (represent dfs v))"
proof (induction v)
  case (PList xs)
  then have "list_all2 same_value xs (map (\<lambda>x. build (represent dfs x)) xs)"
    by (simp add: list_all2_conv_all_nth)
  then show ?case by (simp add: comp_def)
next
  case (PDict a)
  from PDict.prems have d: "distinct (map fst a)" by simp
  have "\<forall>v \<in> snd ` set a. same_value v (build (represent dfs v))"
  proof
    fix v assume "v \<in> snd ` set a"
    then obtain kv where kv: "kv \<in> set a" "v \<in> Basic_BNFs.snds kv"
      by (auto simp: snds.simps)
    moreover from PDict.prems kv have "wf_pyval v" by (auto simp: snds.simps)
    ultimately show "same_value v (build (represent dfs v))" by (rule PDict.IH)
  qed
  from dict_eq_sorted_map[where R = same_value and g = "\<lambda>v. build (represent dfs v)", OF d this]
  show ?case
    by (simp only: build_represent_PDict[OF d] same_value_PDict)
qed auto

subsection \<open>Fields read back\<close>

lemma reload_opt_str:
  "validate_nullable validate_str (build (represent dfs (dump_opt PStr i))) = Valid i"
  by (cases i) (simp_all add: dump_opt_def validate_nullable_def validate_str_def)

lemma reload_opt_int:
  "validate_nullable (validate_int sai) (build (represent dfs (dump_opt PInt p))) = Valid p"
  by (cases p) (simp_all add: dump_opt_def validate_nullable_def validate_int_def)

lemma reload_str: "validate_str (build (represent dfs (PStr s))) = Valid s"
  by (simp add: validate_str_def)

lemma reload_int: "validate_int sai (build (represent dfs (PInt n))) = Valid n"
  by (simp add: validate_int_def)

lemma reload_str_list:
  "validate_list validate_str (build (represent dfs (PList (map PStr xs)))) = Valid xs"
  by (simp add: validate_list_str comp_def)

lemma reload_str_dict:
  assumes "distinct (map fst env)"
  shows "validate_dict validate_str (build (represent dfs (dump_dict PStr env)))
       = Valid (sort_key fst env)"
  by (simp add: validate_dict_str build_represent_dump_dict[OF assms])

lemma reload_extra:
  assumes "distinct (map fst ex)"
  shows "validate_dict validate_any (build (represent False (dump_dict to_jsonable ex)))
       = Valid (map (\<lambda>(k, v). (k, reload_value v)) (sort_key fst ex))"
  by (simp add: validate_dict_any build_represent_dump_dict[OF assms] reload_value_def)

lemma dict_items_map:
  "\<forall>x \<in> snd ` set xs. f (h x) = Valid (g x) \<Longrightarrow>
     dict_items f (map (\<lambda>(k, x). (k, h x)) xs) = Valid (map (\<lambda>(k, x). (k, g x)) xs)"
  by (induction xs) auto

lemma build_represent_ServiceConfig:
  "build (represent dfs (PDict [(''image'', a), (''environment'', b), (''volumes'', c),
      (''ports'', d), (''depends_on'', e), (''extra'', f)]))
     = PDict [(''depends_on'', build (represent dfs e)),
              (''environment'', build (represent dfs b)),
              (''extra'', build (represent dfs f)),
              (''image'', build (represent dfs a)),
              (''ports'', build (represent dfs d)),
              (''volumes'', build (represent dfs c))]"
  by (simp add: dict_of_items_def)

lemma ServiceConfig_validate_fields:
  assumes "validate_nullable validate_str a = Valid i"
    and "validate_dict validate_str b = Valid env"
    and "validate_list validate_str c = Valid vs"
    and "validate_list validate_str d = Valid ps"
    and "validate_list validate_str e = Valid ds"
    and "validate_dict validate_any f = Valid ex"
  shows "ServiceConfig_validate [(''depends_on'', e), (''environment'', b), (''extra'', f),
      (''image'', a), (''ports'', d), (''volumes'', c)]
     = Valid \<lparr>svc_image = i, environment = env, volumes = vs, ports = ps, depends_on = ds,
              extra = ex\<rparr>"
  by (simp add: ServiceConfig_validate_def with_default_def assms)

lemma reload_ServiceConfig:
  assumes "wf_ServiceConfig s"
  shows "validate_model ''ServiceConfig'' ServiceConfig_validate
           (build (represent False (ServiceConfig_dump s))) = Valid (reload_service s)"
proof -
  from assms have d: "distinct (map fst (environment s))" "distinct (map fst (extra s))"
    by (simp_all add: wf_ServiceConfig_def)
  have "ServiceConfig_validate
      [(''depends_on'', build (represent False (PList (map PStr (depends_on s))))),
       (''environment'', build (represent False (dump_dict PStr (environment s)))),
       (''extra'', build (represent False (dump_dict to_jsonable (extra s)))),
       (''image'', build (represent False (dump_opt PStr (svc_image s)))),
       (''ports'', build (represent False (PList (map PStr (ports s))))),
       (''volumes'', build (represent False (PList (map PStr (volumes s)))))]
    = Valid \<lparr>svc_image = svc_image s, environment = sort_key fst (environment s),
             volumes = volumes s, ports = ports s, depends_on = depends_on s,
             extra = map (\<lambda>(k, v). (k, reload_value v)) (sort_key fst (extra s))\<rparr>"
    by (rule ServiceConfig_validate_fields)
      (rule reload_opt_str reload_str_dict[OF d(1)] reload_str_list reload_extra[OF d(2)])+
  moreover have "\<lparr>svc_image = svc_image s, environment = sort_key fst (environment s),
             volumes = volumes s, ports = ports s, depends_on = depends_on s,
             extra = map (\<lambda>(k, v). (k, reload_value v)) (sort_key fst (extra s))\<rparr>
      = reload_service s"
    by (cases s) (simp add: reload_service_def)
  ultimately show ?thesis
    by (simp only: ServiceConfig_dump_def build_represent_ServiceConfig validate_model_def
        pyval.case)
qed

lemma reload_services:
  assumes "distinct (map fst deps)" and "\<forall>(k, s) \<in> set deps. wf_ServiceConfig s"
  shows "validate_dict (validate_model ''ServiceConfig'' ServiceConfig_validate)
           (build (represent False (dump_dict ServiceConfig_dump deps)))
       = Valid (map (\<lambda>(k, s). (k, reload_service s)) (sort_key fst deps))"
proof -
  have "\<forall>s \<in> snd ` set (sort_key fst deps).
      validate_model ''ServiceConfig'' ServiceConfig_validate
        (build (represent False (ServiceConfig_dump s))) = Valid (reload_service s)"
    using assms(2) by (auto intro!: reload_ServiceConfig)
  from dict_items_map[where f = "validate_model ''ServiceConfig'' ServiceConfig_validate"
      and h = "\<lambda>s. build (represent False (ServiceConfig_dump s))" and g = reload_service,
      OF this]
  show ?thesis
    by (simp only: build_represent_dump_dict[OF assms(1)] validate_dict_def pyval.case)
qed

lemma build_represent_ApplicationConfig:
  "build (represent dfs (PDict [(''name'', a), (''domain'', b), (''dockerfile'', c),
      (''context'', d), (''port'', e), (''environment'', f), (''dependencies'', g)]))
     = PDict [(''context'', build (represent dfs d)),
              (''dependencies'', build (represent dfs g)),
              (''dockerfile'', build (represent dfs c)),
              (''domain'', build (represent dfs b)),
              (''environment'', build (represent dfs f)),
              (''name'', build (represent dfs a)),
              (''port'', build (represent dfs e))]"
  by (simp add: dict_of_items_def)

lemma build_represent_VPSConfig:
  "build (represent dfs (PDict [(''host'', a), (''user'', b), (''ssh_key_path'', c),
      (''port'', d), (''email'', e)]))
     = PDict [(''email'', build (represent dfs e)),
              (''host'', build (represent dfs a)),
              (''port'', build (represent dfs d)),
              (''ssh_key_path'', build (represent dfs c)),
              (''user'', build (represent dfs b))]"
  by (simp add: dict_of_items_def)

lemma build_represent_DockLiftConfig:
  "build (represent dfs (PDict [(''vps'', a), (''application'', b)]))
     = PDict [(''application'', build (represent dfs b)), (''vps'', build (represent dfs a))]"
  by (simp add: dict_of_items_def)

lemma ApplicationConfig_validate_fields:
  assumes "validate_str a = Valid n" and "validate_str b = Valid dm"
    and "validate_str c = Valid df" and "validate_str d = Valid ctx"
    and "validate_nullable (validate_int sai) e = Valid p"
    and "validate_dict validate_str f = Valid env"
    and "validate_dict (validate_model ''ServiceConfig'' ServiceConfig_validate) g = Valid deps"
  shows "ApplicationConfig_validate sai [(''context'', d), (''dependencies'', g),
      (''dockerfile'', c), (''domain'', b), (''environment'', f), (''name'', a), (''port'', e)]
     = Valid \<lparr>name = n, domain = dm, dockerfile = df, build_context = ctx, app_port = p,
              app_environment = env, dependencies = deps\<rparr>"
  by (simp add: ApplicationConfig_validate_def with_default_def required_def assms)

lemma VPSConfig_validate_fields:
  assumes "validate_str a = Valid h" and "validate_str b = Valid u"
    and "after_validator validate_str (validate_ssh_key_path fs) c = Valid k"
    and "validate_int sai d = Valid p"
    and "validate_nullable validate_str e = Valid em"
  shows "VPSConfig_validate sai fs [(''email'', e), (''host'', a), (''port'', d),
      (''ssh_key_path'', c), (''user'', b)]
     = Valid \<lparr>host = h, user = u, ssh_key_path = k, port = p, email = em\<rparr>"
  by (simp add: VPSConfig_validate_def with_default_def required_def assms)

lemma reload_ApplicationConfig:
  assumes "distinct (map fst (app_environment a))" and "distinct (map fst (dependencies a))"
    and "\<forall>(k, s) \<in> set (dependencies a). wf_ServiceConfig s"
  shows "validate_model ''ApplicationConfig'' (ApplicationConfig_validate sai)
           (build (represent False (ApplicationConfig_dump a))) = Valid (reload_application a)"
proof -
  have "ApplicationConfig_validate sai
      [(''context'', build (represent False (PStr (build_context a)))),
       (''dependencies'', build (represent False (dump_dict ServiceConfig_dump (dependencies a)))),
       (''dockerfile'', build (represent False (PStr (dockerfile a)))),
       (''domain'', build (represent False (PStr (domain a)))),
       (''environment'', build (represent False (dump_dict PStr (app_environment a)))),
       (''name'', build (represent False (PStr (name a)))),
       (''port'', build (represent False (dump_opt PInt (app_port a))))]
    = Valid \<lparr>name = name a, domain = domain a, dockerfile = dockerfile a,
             build_context = build_context a, app_port = app_port a,
             app_environment = sort_key fst (app_environment a),
             dependencies = map (\<lambda>(k, s). (k, reload_service s)) (sort_key fst (dependencies a))\<rparr>"
    by (rule ApplicationConfig_validate_fields)
      (rule reload_str reload_opt_int reload_str_dict[OF assms(1)] reload_services[OF assms(2,3)])+
  moreover have "\<lparr>name = name a, domain = domain a, dockerfile = dockerfile a,
             build_context = build_context a, app_port = app_port a,
             app_environment = sort_key fst (app_environment a),
             dependencies = map (\<lambda>(k, s). (k, reload_service s)) (sort_key fst (dependencies a))\<rparr>
      = reload_application a"
    by (cases a) (simp add: reload_application_def)
  ultimately show ?thesis
    by (simp only: ApplicationConfig_dump_def build_represent_ApplicationConfig
        validate_model_def pyval.case)
qed

lemma reload_VPSConfig:
  assumes "validate_ssh_key_path fs (ssh_key_path v) = Inr (ssh_key_path v)"
  shows "validate_model ''VPSConfig'' (VPSConfig_validate sai fs)
           (build (represent False (VPSConfig_dump v))) = Valid v"
proof -
  have k: "after_validator validate_str (validate_ssh_key_path fs)
      (build (represent False (PStr (ssh_key_path v)))) = Valid (ssh_key_path v)"
    by (simp add: after_validator_def validate_str_def assms)
  have "VPSConfig_validate sai fs
      [(''email'', build (represent False (dump_opt PStr (email v)))),
       (''host'', build (represent False (PStr (host v)))),
       (''port'', build (represent False (PInt (port v)))),
       (''ssh_key_path'', build (represent False (PStr (ssh_key_path v)))),
       (''user'', build (represent False (PStr (user v))))]
    = Valid \<lparr>host = host v, user = user v, ssh_key_path = ssh_key_path v, port = port v,
             email = email v\<rparr>"
    by (rule VPSConfig_validate_fields) (rule reload_str k reload_int reload_opt_str)+
  then show ?thesis
    by (simp only: VPSConfig_dump_def build_represent_VPSConfig validate_model_def pyval.case)
      simp
qed

lemma reload_DockLiftConfig:
  assumes "wf_config c"
    and "validate_ssh_key_path fs (ssh_key_path (vps c)) = Inr (ssh_key_path (vps c))"
  shows "DockLiftConfig_init sai fs (build (represent False (model_dump c)))
       = Inr (reload_config c)"
proof -
  from assms(1) have w: "distinct (map fst (app_environment (application c)))"
    "distinct (map fst (dependencies (application c)))"
    "\<forall>(k, s) \<in> set (dependencies (application c)). wf_ServiceConfig s"
    by (simp_all add: wf_config_def)
  have "DockLiftConfig_validate sai fs
      [(''application'', build (represent False (ApplicationConfig_dump (application c)))),
       (''vps'', build (represent False (VPSConfig_dump (vps c))))]
    = Valid \<lparr>vps = vps c, application = reload_application (application c)\<rparr>"
    by (simp add: DockLiftConfig_validate_def required_def reload_VPSConfig[OF assms(2)]
        reload_ApplicationConfig[OF w])
  moreover have "\<lparr>vps = vps c, application = reload_application (application c)\<rparr> = reload_config c"
    by (cases c) (simp add: reload_config_def)
  ultimately show ?thesis
    by (simp only: model_dump_def build_represent_DockLiftConfig DockLiftConfig_init_def
        pyval.case init_def res.case)
qed

subsection \<open>What is read back equals what was saved\<close>

lemma dict_eq_sort_key:
  assumes "distinct (map fst a)"
  shows "dict_eq (=) a (sort_key fst a)"
proof -
  have "\<forall>v \<in> snd ` set a. v = v" by simp
  from dict_eq_sorted_map[where R = "(=)" and g = "\<lambda>v. v", OF assms this]
  show ?thesis by (simp add: split_beta)
qed

lemma same_value_reload_value: "wf_pyval v \<Longrightarrow> json_native v \<Longrightarrow> same_value v (reload_value v)"
  by (simp add: reload_value_def to_jsonable_native same_value_build_represent)

lemma ServiceConfig_same_reload:
  assumes "wf_ServiceConfig s" and "\<forall>(k, v) \<in> set (extra s). json_native v"
  shows "ServiceConfig_same s (reload_service s)"
proof -
  from assms(1) have d: "distinct (map fst (environment s))" "distinct (map fst (extra s))"
    and w: "\<forall>(k, v) \<in> set (extra s). wf_pyval v"
    by (simp_all add: wf_ServiceConfig_def)
  from w assms(2) have "\<forall>v \<in> snd ` set (extra s). same_value v (reload_value v)"
    by (auto intro!: same_value_reload_value)
  from dict_eq_sorted_map[where R = same_value and g = reload_value, OF d(2) this]
    dict_eq_sort_key[OF d(1)]
  show ?thesis
    by (simp add: ServiceConfig_same_def reload_service_def)
qed

lemma DockLiftConfig_same_reload:
  assumes "wf_config c" and "json_native_config c"
  shows "DockLiftConfig_same c (reload_config c)"
proof -
  let ?a = "application c"
  from assms(1) have w: "distinct (map fst (app_environment ?a))"
    "distinct (map fst (dependencies ?a))"
    "\<forall>(k, s) \<in> set (dependencies ?a). wf_ServiceConfig s"
    by (simp_all add: wf_config_def)
  have "\<forall>s \<in> snd ` set (dependencies ?a). ServiceConfig_same s (reload_service s)"
  proof
    fix s assume "s \<in> snd ` set (dependencies ?a)"
    then obtain k where ks: "(k, s) \<in> set (dependencies ?a)" by auto
    with w(3) have "wf_ServiceConfig s" by blast
    moreover from ks assms(2) have "\<forall>(k, v) \<in> set (extra s). json_native v"
      unfolding json_native_config_def by blast
    ultimately show "ServiceConfig_same s (reload_service s)"
      by (rule ServiceConfig_same_reload)
  qed
  from dict_eq_sorted_map[where R = ServiceConfig_same and g = reload_service, OF w(2) this]
    dict_eq_sort_key[OF w(1)]
  show ?thesis
    by (simp add: DockLiftConfig_same_def ApplicationConfig_same_def reload_config_def
        reload_application_def)
qed


lemma dict_eq_mono:
  "(\<And>v w. v \<in> snd ` set a \<Longrightarrow> R v w \<Longrightarrow> S v w) \<Longrightarrow> dict_eq R a b \<Longrightarrow> dict_eq S a b"
  unfolding dict_eq_def by (fastforce split: option.splits)

lemma DockLiftConfig_same_eq:
  assumes "DockLiftConfig_same c d"
  shows "DockLiftConfig_eq c d"
proof -
  have s: "ServiceConfig_eq s t" if "ServiceConfig_same s t" for s t
    using that dict_eq_mono[of "extra s" same_value py_eq "extra t"] same_value_py_eq
    by (simp add: ServiceConfig_same_def ServiceConfig_eq_def)
  from assms dict_eq_mono[of "dependencies (application c)" ServiceConfig_same ServiceConfig_eq
      "dependencies (application d)"] s
  show ?thesis
    by (simp add: DockLiftConfig_same_def DockLiftConfig_eq_def ApplicationConfig_same_def
        ApplicationConfig_eq_def)
qed

subsection \<open>Loading what was saved\<close>

lemma build_emit: "build (emit inside n) = build n"
proof (induction n arbitrary: inside)
  case (NSeq fl ns)
  then show ?case by simp
next
  case (NMap fl kns)
  have "map (\<lambda>(k, n). (k, build n)) (map (\<lambda>(k, n). (k, emit (inside \<or> fl \<or> kns = []) n)) kns)
      = map (\<lambda>(k, n). (k, build n)) kns"
    unfolding map_items_comp
  proof (rule map_items_cong)
    fix n assume "n \<in> snd ` set kns"
    then obtain kn where "kn \<in> set kns" "n \<in> Basic_BNFs.snds kn"
      by (auto simp: snds.simps)
    then show "build (emit (inside \<or> fl \<or> kns = []) n) = build n"
      by (rule NMap.IH)
  qed
  then show ?case by (simp only: emit.simps build.simps)
qed simp_all

lemma no_timestamp_emit: "no_timestamp (emit inside n) = no_timestamp n"
proof (induction n arbitrary: inside)
  case (NMap fl kns)
  then show ?case by (fastforce simp: snds.simps)
qed auto

lemma collect_all:
  "(\<And>x. x \<in> set xs \<Longrightarrow> f x = Inr (g x)) \<Longrightarrow> collect (map f xs) = Inr (map g xs)"
  by (induction xs) auto

lemma construct_build: "no_timestamp n \<Longrightarrow> construct n = Inr (build n)"
proof (induction n)
  case (NSeq fl ns)
  have "collect (map construct ns) = Inr (map build ns)"
    by (rule collect_all) (use NSeq in auto)
  then show ?case by simp
next
  case (NMap fl kns)
  have "collect (map (\<lambda>(k, n). case construct n of Inl e \<Rightarrow> Inl e | Inr v \<Rightarrow> Inr (k, v)) kns)
      = Inr (map (\<lambda>(k, n). (k, build n)) kns)"
  proof (rule collect_all)
    fix kn assume kn: "kn \<in> set kns"
    obtain k n where p: "kn = (k, n)" by (cases kn)
    from kn p have "n \<in> Basic_BNFs.snds kn" by (simp add: snds.simps)
    moreover from NMap.prems kn p have "no_timestamp n" by auto
    ultimately have "construct n = Inr (build n)"
      using NMap.IH kn by blast
    then show "(case kn of (k, n) \<Rightarrow> case construct n of Inl e \<Rightarrow> Inl e | Inr v \<Rightarrow> Inr (k, v))
        = Inr (case kn of (k, n) \<Rightarrow> (k, build n))"
      by (simp add: p)
  qed
  then show ?case by simp
qed simp_all

lemma json_native_jsonable: "json_native (to_jsonable v)"
  by (induction v) (auto simp: snds.simps)

lemma no_timestamp_represent: "json_native v \<Longrightarrow> no_timestamp (represent dfs v)"
proof (induction v)
  case (PDict kvs)
  then show ?case by (fastforce simp: snds.simps)
qed auto

lemma json_native_model_dump: "json_native (model_dump c)"
  by (auto simp: model_dump_def VPSConfig_dump_def ApplicationConfig_dump_def
      ServiceConfig_dump_def dump_dict_def dump_opt_def json_native_jsonable
      split: option.splits)

lemma construct_document: "construct (document c) = Inr (build (represent False (model_dump c)))"
  unfolding emit_represent_model_dump[symmetric]
  by (simp add: construct_build no_timestamp_emit no_timestamp_represent json_native_model_dump
      build_emit)

lemma from_yaml_after_to_yaml:
  assumes "to_yaml fs c path = Inr fs'"
  shows "from_yaml sai fs' path
       = DockLiftConfig_init sai fs' (build (represent False (model_dump c)))"
proof -
  from assms obtain fs1 l where l: "resolve fs1 (Path path) = Found l" and nd: "\<not> dir_at fs1 l"
    and fs': "fs' = fs1\<lparr>files := (files fs1)(l \<mapsto> Doc (document c))\<rparr>"
    unfolding to_yaml_Inr by blast
  have "dirs fs1 \<subseteq> dirs fs'" "cwd fs' = cwd fs1"
    by (simp_all add: fs')
  from resolve_mono[OF this l] have r: "resolve fs' (Path path) = Found l" .
  from nd have d: "\<not> dir_at fs' l"
    by (simp add: fs' dir_at_def)
  have f: "files fs' l = Some (Doc (document c))"
    by (simp add: fs')
  from from_yaml_file[OF r d f, of sai] show ?thesis
    by (simp add: construct_document)
qed

text \<open>
  C1 (as amended).  Let \<open>c\<close> be a configuration (the keys of its dictionaries are
  distinct), let \<^verbatim>\<open>to_yaml\<close> save it, and let its key path still validate to itself on
  the filesystem after the save (the key exists and the stored path is in expanded form).
  Then \<^verbatim>\<open>from_yaml\<close> on the same path returns a configuration: the \<^verbatim>\<open>vps\<close> part
  is the one of \<open>c\<close>, and when every value in the \<^verbatim>\<open>extra\<close> mappings of \<open>c\<close> is a
  JSON value, the configuration returned is equal to \<open>c\<close>: field by field, with values
  of the same types, and so as Python values too.
\<close>

theorem save_load_round_trip:
  assumes "wf_config c"
    and "to_yaml fs c path = Inr fs'"
    and "validate_ssh_key_path fs' (ssh_key_path (vps c)) = Inr (ssh_key_path (vps c))"
  shows "from_yaml sai fs' path = Inr (reload_config c)
       \<and> vps (reload_config c) = vps c
       \<and> (json_native_config c \<longrightarrow>
            DockLiftConfig_same c (reload_config c) \<and> DockLiftConfig_eq c (reload_config c))"
  using from_yaml_after_to_yaml[OF assms(2), of sai] reload_DockLiftConfig[OF assms(1,3), of sai]
    DockLiftConfig_same_reload[OF assms(1)] DockLiftConfig_same_eq[of c "reload_config c"]
  by (auto simp: reload_config_def)

lemma exists_path_kept:
  assumes "resolve fs p = Found l" and "dirs fs \<subseteq> dirs fs'" and "cwd fs' = cwd fs"
    and "files fs' l \<noteq> None"
  shows "exists_path fs' p = Inr True"
  using resolve_mono[OF assms(2,3,1)] assms(4)
  by (auto simp: exists_path_def os_stat_def)

lemma validate_absolute_key:
  assumes "os_path_isabs k" and "str_path (Path k) = k" and "exists_path fs (Path k) = Inr True"
  shows "validate_ssh_key_path fs k = Inr k"
proof -
  from assms(1) have "\<not> expands (Path k)"
    by (intro not_expands_absolute) (simp add: is_absolute_Path)
  then have "expanduser fs (Path k) = Inr (Path k)" by (rule expanduser_rooted)
  with assms(2,3) show ?thesis
    by (simp add: validate_ssh_key_path_def)
qed

lemma key_demo:
  "resolve doc_fs (Path ''/home/deploy/.ssh/id_rsa'') = Found [''home'', ''deploy'', ''.ssh'', ''id_rsa'']"
  "str_path (Path ''/home/deploy/.ssh/id_rsa'') = ''/home/deploy/.ssh/id_rsa''"
  "os_path_isabs ''/home/deploy/.ssh/id_rsa''"
  by (simp_all add: fs_defs path_defs)

theorem save_load_round_trip_witness:
  "\<exists>fs'. to_yaml doc_fs demo_cfg ''etc/docklift/docklift.yml'' = Inr fs'
      \<and> from_yaml no_str_as_int fs' ''etc/docklift/docklift.yml'' = Inr (reload_config demo_cfg)
      \<and> DockLiftConfig_same demo_cfg (reload_config demo_cfg)
      \<and> DockLiftConfig_eq demo_cfg (reload_config demo_cfg)"
proof -
  have pre: "writable doc_fs (Path ''etc/docklift/docklift.yml'')"
    unfolding writable_def parents_demo
    by (simp add: Path_demo fs_defs str_path_def place_of_def file_at_def dir_at_def)
  from to_yaml_succeeds[OF pre] obtain fs' where
    s: "to_yaml doc_fs demo_cfg ''etc/docklift/docklift.yml'' = Inr fs'" by blast
  have pl: "''..'' \<notin> set (parts (Path ''etc/docklift/docklift.yml''))"
    "place_of doc_fs (Path ''etc/docklift/docklift.yml'')
       = [''srv'', ''app'', ''etc'', ''docklift'', ''docklift.yml'']"
    by (simp_all add: Path_demo fs_defs place_of_def)
  from to_yaml_result[OF s] pl(1)
  have f: "files fs' = (files doc_fs)(place_of doc_fs (Path ''etc/docklift/docklift.yml'')
      \<mapsto> Doc (document demo_cfg))"
    and d: "dirs doc_fs \<subseteq> dirs fs'" "cwd fs' = cwd doc_fs"
    by blast+
  from f have "files fs' [''home'', ''deploy'', ''.ssh'', ''id_rsa''] \<noteq> None"
    unfolding pl(2) by (simp add: fs_defs)
  from exists_path_kept[OF key_demo(1) d this]
  have k: "validate_ssh_key_path fs' (ssh_key_path (vps demo_cfg)) = Inr (ssh_key_path (vps demo_cfg))"
    by (intro validate_absolute_key) (simp_all add: demo_cfg_def key_demo)
  have n: "json_native_config demo_cfg"
    by (simp add: json_native_config_def demo_cfg_def)
  from save_load_round_trip[OF wf_demo_cfg(1) s k, of no_str_as_int] n s show ?thesis
    by blast
qed

lemma dated_cfg_wf: "wf_config (dated_cfg (PDate y m d))"
  by (simp add: wf_config_def wf_ServiceConfig_def dated_cfg_def dated_service_def)

text \<open>
  C1 as stated fails for a configuration with a date in \<^verbatim>\<open>extra\<close>, such as the one
  that \<^verbatim>\<open>from_yaml\<close> constructs from \<^verbatim>\<open>extra: {since: 2020-01-01}\<close>: in JSON mode
  \<^verbatim>\<open>model_dump\<close> turns the date into its ISO string, and the string is what is loaded.
\<close>

theorem save_load_date_counterexample:
  "DockLiftConfig_init no_str_as_int doc_fs (PDict dated_kwargs) = Inr (dated_cfg (PDate 2020 1 1))
   \<and> to_yaml doc_fs (dated_cfg (PDate 2020 1 1)) ''saved.yml'' = Inr saved_fs
   \<and> exists_path saved_fs (Path ''/home/deploy/.ssh/id_rsa'') = Inr True
   \<and> from_yaml no_str_as_int saved_fs ''saved.yml'' = Inr (dated_cfg (PStr ''2020-01-01''))
   \<and> \<not> DockLiftConfig_eq (dated_cfg (PDate 2020 1 1)) (dated_cfg (PStr ''2020-01-01''))"
proof -
  have 1: "DockLiftConfig_init no_str_as_int doc_fs (PDict dated_kwargs)
      = Inr (dated_cfg (PDate 2020 1 1))"
    by (simp add: dated_kwargs_def dated_cfg_def dated_service_def demo_vps_def demo_app_def
        fs_defs path_defs load_defs model_defs)
  have 2: "to_yaml doc_fs (dated_cfg (PDate 2020 1 1)) ''saved.yml'' = Inr saved_fs"
    by (simp add: to_yaml_def saved_fs_def open_write_def mkdir_cases path_defs fs_defs)
  have 3: "exists_path saved_fs (Path ''/home/deploy/.ssh/id_rsa'') = Inr True"
    by (simp add: saved_fs_def fs_defs path_defs)
  then have k: "validate_ssh_key_path saved_fs (ssh_key_path (vps (dated_cfg (PDate 2020 1 1))))
      = Inr (ssh_key_path (vps (dated_cfg (PDate 2020 1 1))))"
    by (intro validate_absolute_key) (simp_all add: dated_cfg_def key_demo)
  have "reload_config (dated_cfg (PDate 2020 1 1)) = dated_cfg (PStr ''2020-01-01'')"
    by (simp add: reload_config_def reload_application_def reload_service_def reload_value_def
        dated_cfg_def dated_service_def isoformat_def digit_def dict_of_items_def)
  with from_yaml_after_to_yaml[OF 2, of no_str_as_int]
    reload_DockLiftConfig[OF dated_cfg_wf k, of no_str_as_int]
  have 4: "from_yaml no_str_as_int saved_fs ''saved.yml'' = Inr (dated_cfg (PStr ''2020-01-01''))"
    by simp
  have 5: "\<not> DockLiftConfig_eq (dated_cfg (PDate 2020 1 1)) (dated_cfg (PStr ''2020-01-01''))"
    by (simp add: DockLiftConfig_eq_def ApplicationConfig_eq_def ServiceConfig_eq_def dict_eq_def
        dated_cfg_def dated_service_def)
  from 1 2 3 4 5 show ?thesis by blast
qed

end
